theory Spec2Isabelle
  imports Main "HOL-Library.Multiset"
begin

section \<open>The feature extraction script \<open>extract.py\<close>\<close>

text \<open>
  The script lists the images of six category folders, shuffles the labelled list, cuts the
  paths into batches, runs every batch through a frozen featurizer and writes the rows and
  the labels to one HDF5 file. The model below follows the script function by function.
  What the script reaches through libraries is a parameter of the model:
  \<^item> the file system, as the functions \<open>listdir\<close>, \<open>open_rb\<close> and \<open>h5py_File_w\<close> of a
    \<open>world\<close>, each returning the exception it raises or its result;
  \<^item> the random draws of \<open>random.shuffle\<close>, as a function \<open>rnd\<close>;
  \<^item> the featurizer (\<open>resnet.import_graph_def\<close> and \<open>sess.run\<close>), as a value that is either
    the exception raised while the graph is built or the function from a batch of byte
    strings to the array the session returns.
\<close>

subsection \<open>Data\<close>

datatype error = OSError string | ValueError | KeyError | GraphError string

type_synonym bytes = string

text \<open>The four command-line flags and their defaults (\<open>tf.app.flags.DEFINE_...\<close>).\<close>

record flags =
  batch_size :: int
  input_data_dir :: string
  output_data_dir :: string
  file_name :: string

definition default_flags :: flags where
  "default_flags =
     \<lparr>batch_size = 64,
      input_data_dir = ''aerialtiny'',
      output_data_dir = ''bottleneck_features'',
      file_name = ''aerial_bottleneck_resnet50.h5''\<rparr>"

text \<open>
  A numpy array as the script uses it: the length of its first axis (\<open>len(a)\<close>) and its
  elements in row-major order (\<open>a.size\<close> is the length of \<open>flat\<close>).
\<close>

record 'v ndarray =
  nrows :: nat
  flat :: "'v list"

text \<open>The HDF5 file written at the end: the datasets \<open>'features'\<close> and \<open>'labels'\<close>.\<close>

record 'v h5file =
  features_dset :: "'v list list"
  labels_dset :: "nat list"

text \<open>
  The world the script runs in: directory listings, file contents, the exception that
  \<open>h5py.File(path, "w")\<close> raises when the file at \<open>path\<close> cannot be created (\<open>None\<close> when it
  can), and the HDF5 files written so far, by path.
\<close>

record 'v world =
  listdir :: "string \<Rightarrow> error + string list"
  open_rb :: "string \<Rightarrow> error + bytes"
  h5py_File_w :: "string \<Rightarrow> error option"
  h5 :: "string \<rightharpoonup> 'v h5file"

subsection \<open>Library functions the script calls\<close>

text \<open>
  \<open>os.path.join\<close> (posixpath): a component that starts with the separator replaces what
  came before; otherwise it is appended, after a separator unless the path so far is empty
  or already ends with one.
\<close>

definition join2 :: "string \<Rightarrow> string \<Rightarrow> string" where
  "join2 path b =
     (if b \<noteq> [] \<and> hd b = CHR ''/'' then b
      else if path = [] \<or> last path = CHR ''/'' then path @ b
      else path @ CHR ''/'' # b)"

definition os_path_join :: "string \<Rightarrow> string list \<Rightarrow> string" where
  "os_path_join a p = foldl join2 a p"

text \<open>
  A Python slice \<open>xs[lo:hi]\<close>: a negative bound counts from the end, and both bounds are
  clamped to the list.
\<close>

definition py_slice :: "'a list \<Rightarrow> int \<Rightarrow> int \<Rightarrow> 'a list" where
  "py_slice xs lo hi =
     (let n = int (length xs);
          a = (if lo < 0 then max (lo + n) 0 else min lo n);
          b = (if hi < 0 then max (hi + n) 0 else min hi n)
      in take (nat (b - a)) (drop (nat a) xs))"

text \<open>
  \<open>random.shuffle\<close>: for \<open>i\<close> from \<open>len(x) - 1\<close> down to 1, draw \<open>j = randbelow(i + 1)\<close> and
  exchange \<open>x[i]\<close> and \<open>x[j]\<close>. The draw at bound \<open>n\<close> is \<open>rnd n mod n\<close>: any function \<open>rnd\<close>
  gives draws in range, and every sequence of draws in range comes from some \<open>rnd\<close>, since
  each bound occurs once.
\<close>

definition randbelow :: "(nat \<Rightarrow> nat) \<Rightarrow> nat \<Rightarrow> nat" where
  "randbelow rnd n = rnd n mod n"

definition swap :: "'a list \<Rightarrow> nat \<Rightarrow> nat \<Rightarrow> 'a list" where
  "swap x i j = x[i := x ! j, j := x ! i]"

definition shuffle :: "(nat \<Rightarrow> nat) \<Rightarrow> 'a list \<Rightarrow> 'a list" where
  "shuffle rnd x =
     foldl (\<lambda>x i. swap x i (randbelow rnd (i + 1))) x (rev [1..<length x])"

text \<open>
  \<open>image_paths, labels = zip(*labeled_image_list)\<close>: on a list of pairs \<open>zip\<close> yields the
  two columns; on the empty list it yields nothing, and the assignment to two names raises
  \<open>ValueError\<close>.
\<close>

definition unzip_pairs :: "('a \<times> 'b) list \<Rightarrow> error + ('a list \<times> 'b list)" where
  "unzip_pairs l = (if l = [] then Inl ValueError else Inr (map fst l, map snd l))"

text \<open>
  \<open>np.reshape(a, (len(a), 2048))\<close>: raises \<open>ValueError\<close> unless the array has
  \<open>len(a) * 2048\<close> elements; the result is read here as the list of its rows.
\<close>

definition np_reshape :: "'v ndarray \<Rightarrow> error + 'v list list" where
  "np_reshape a =
     (if length (flat a) = nrows a * 2048
      then Inr (map (\<lambda>i. take 2048 (drop (i * 2048) (flat a))) [0..<nrows a])
      else Inl ValueError)"

text \<open>
  The shape numpy gives to \<open>np.array(rows)\<close> for a list of one-dimensional rows: \<open>(0,)\<close> for
  no row, \<open>(N, k)\<close> for \<open>N\<close> rows that all have \<open>k\<close> entries, and the one-dimensional \<open>(N,)\<close>
  of an array of objects when the rows differ in length. And the shape of
  \<open>np.asarray(labels)\<close> for a tuple of integers.
\<close>

definition np_shape2 :: "'v list list \<Rightarrow> nat list" where
  "np_shape2 rows =
     (case rows of
        [] \<Rightarrow> [0]
      | r # _ \<Rightarrow>
          if \<forall>r'\<in>set rows. length r' = length r then [length rows, length r]
          else [length rows])"

definition np_shape1 :: "'a list \<Rightarrow> nat list" where
  "np_shape1 xs = [length xs]"

subsection \<open>The script\<close>

text \<open>
  \<open>get_batch\<close> is a generator over \<open>range(0, len(pathnames), batchsize)\<close>; the model returns
  the list of what it yields. \<open>range\<close> raises \<open>ValueError\<close> for a step of zero and is empty
  for a negative step here (the start 0 is not above the stop). \<open>get_batch_from\<close> is the
  loop for a positive step, from the index \<open>i\<close> on: it yields \<open>pathnames[i:i+batchsize]\<close> and
  goes on at \<open>i + batchsize\<close> while \<open>i\<close> is below the length.
\<close>

function get_batch_from :: "'a list \<Rightarrow> int \<Rightarrow> int \<Rightarrow> 'a list list" where
  "get_batch_from pathnames batchsize i =
     (if 0 < batchsize \<and> i < int (length pathnames)
      then py_slice pathnames i (i + batchsize) #
           get_batch_from pathnames batchsize (i + batchsize)
      else [])"
  by pat_completeness auto
termination
  by (relation "measure (\<lambda>(pathnames, batchsize, i). nat (int (length pathnames) - i))") auto

declare get_batch_from.simps [simp del]

definition get_batch :: "'a list \<Rightarrow> int \<Rightarrow> error + 'a list list" where
  "get_batch pathnames batchsize =
     (if batchsize = 0 then Inl ValueError
      else if batchsize < 0 then Inr []
      else Inr (get_batch_from pathnames batchsize 0))"

fun load_images :: "'v world \<Rightarrow> string list \<Rightarrow> error + bytes list" where
  "load_images w [] = Inr []"
| "load_images w (path # batch) =
     (case open_rb w path of
        Inl e \<Rightarrow> Inl e
      | Inr f \<Rightarrow>
          (case load_images w batch of
             Inl e \<Rightarrow> Inl e
           | Inr images \<Rightarrow> Inr (f # images)))"

text \<open>The dictionary \<open>label_map\<close>, in the order it is written, and its keys.\<close>

definition label_map :: "(string \<times> nat) list" where
  "label_map =
     [(''Barren'', 0), (''Cultivated'', 1), (''Developed'', 2),
      (''Forest'', 3), (''Herbaceous'', 4), (''Shrub'', 5)]"

definition folders :: "string list" where
  "folders = map fst label_map"

text \<open>
  The comprehension that builds \<open>labeled_image_list\<close>: for each folder, in order, the
  listing of \<open>os.path.join(img_dir, folder)\<close>, and for each image of it the pair of
  \<open>os.path.join(img_dir, folder, image)\<close> and \<open>label_map[folder]\<close>.
\<close>

definition folder_entries :: "string \<Rightarrow> string \<Rightarrow> string list \<Rightarrow> error + (string \<times> nat) list" where
  "folder_entries img_dir folder images =
     (if images = [] then Inr []
      else case map_of label_map folder of
             None \<Rightarrow> Inl KeyError
           | Some label \<Rightarrow>
               Inr (map (\<lambda>image. (os_path_join img_dir [folder, image], label)) images))"

fun labeled_images :: "'v world \<Rightarrow> string \<Rightarrow> string list \<Rightarrow> error + (string \<times> nat) list" where
  "labeled_images w img_dir [] = Inr []"
| "labeled_images w img_dir (folder # rest) =
     (case listdir w (os_path_join img_dir [folder]) of
        Inl e \<Rightarrow> Inl e
      | Inr images \<Rightarrow>
          (case folder_entries img_dir folder images of
             Inl e \<Rightarrow> Inl e
           | Inr here \<Rightarrow>
               (case labeled_images w img_dir rest of
                  Inl e \<Rightarrow> Inl e
                | Inr others \<Rightarrow> Inr (here @ others))))"

definition labeled_image_list :: "'v world \<Rightarrow> string \<Rightarrow> error + (string \<times> nat) list" where
  "labeled_image_list w img_dir = labeled_images w img_dir folders"

text \<open>
  The loop \<open>for paths in tqdm(get_batch(image_paths))\<close>: load the batch, run the session,
  reshape the result and extend \<open>bottleneck_features\<close> with its rows.
\<close>

fun extract_batches ::
  "'v world \<Rightarrow> (bytes list \<Rightarrow> error + 'v ndarray) \<Rightarrow> string list list \<Rightarrow> 'v list list
   \<Rightarrow> error + 'v list list" where
  "extract_batches w sess_run [] bottleneck_features = Inr bottleneck_features"
| "extract_batches w sess_run (paths # rest) bottleneck_features =
     (case load_images w paths of
        Inl e \<Rightarrow> Inl e
      | Inr image_batch \<Rightarrow>
          (case sess_run image_batch of
             Inl e \<Rightarrow> Inl e
           | Inr result \<Rightarrow>
               (case np_reshape result of
                  Inl e \<Rightarrow> Inl e
                | Inr rows \<Rightarrow> extract_batches w sess_run rest (bottleneck_features @ rows))))"

definition output_file :: "flags \<Rightarrow> string" where
  "output_file FLAGS = os_path_join (output_data_dir FLAGS) [file_name FLAGS]"

text \<open>
  \<open>create_bottleneck_features\<close>. \<open>get_batch\<close> is called with the paths alone, so its
  \<open>batchsize\<close> is the default 64 of its signature. The steps and the places where the run
  can raise are in the order of the source: the listing, the unpacking of the shuffled list,
  the building of the graph, the loop over the batches, and last the creation of the HDF5
  file, which holds the two datasets when it succeeds. The result is the exception raised,
  if any, and the world afterwards.
\<close>

definition create_bottleneck_features ::
  "flags \<Rightarrow> (nat \<Rightarrow> nat) \<Rightarrow> (error + (bytes list \<Rightarrow> error + 'v ndarray)) \<Rightarrow> 'v world
   \<Rightarrow> (error + unit) \<times> 'v world" where
  "create_bottleneck_features FLAGS rnd resnet w =
     (case labeled_image_list w (input_data_dir FLAGS) of
        Inl e \<Rightarrow> (Inl e, w)
      | Inr l \<Rightarrow>
     (case unzip_pairs (shuffle rnd l) of
        Inl e \<Rightarrow> (Inl e, w)
      | Inr (image_paths, labels) \<Rightarrow>
     (case resnet of
        Inl e \<Rightarrow> (Inl e, w)
      | Inr sess_run \<Rightarrow>
     (case get_batch image_paths 64 of
        Inl e \<Rightarrow> (Inl e, w)
      | Inr batches \<Rightarrow>
     (case extract_batches w sess_run batches [] of
        Inl e \<Rightarrow> (Inl e, w)
      | Inr bottleneck_features \<Rightarrow>
     (case h5py_File_w w (output_file FLAGS) of
        Some e \<Rightarrow> (Inl e, w)
      | None \<Rightarrow>
          (Inr (),
           w\<lparr>h5 := (h5 w)
                (output_file FLAGS \<mapsto>
                 \<lparr>features_dset = bottleneck_features, labels_dset = labels\<rparr>)\<rparr>)))))))"

subsection \<open>Inputs the properties speak about\<close>

text \<open>
  The files found in a category folder (none when the folder cannot be listed), the
  (path, label) pairs they stand for, the total over the six folders, and the bytes of a
  file (empty when it cannot be read).
\<close>

definition images_in :: "'v world \<Rightarrow> string \<Rightarrow> string \<Rightarrow> string list" where
  "images_in w img_dir folder =
     (case listdir w (os_path_join img_dir [folder]) of Inl _ \<Rightarrow> [] | Inr images \<Rightarrow> images)"

definition folder_pairs :: "'v world \<Rightarrow> string \<Rightarrow> string \<Rightarrow> (string \<times> nat) list" where
  "folder_pairs w img_dir folder =
     map (\<lambda>image. (os_path_join img_dir [folder, image], the (map_of label_map folder)))
       (images_in w img_dir folder)"

definition total_image_count :: "'v world \<Rightarrow> string \<Rightarrow> nat" where
  "total_image_count w img_dir = sum_list (map (\<lambda>folder. length (images_in w img_dir folder)) folders)"

definition contents :: "'v world \<Rightarrow> string \<Rightarrow> bytes" where
  "contents w path = (case open_rb w path of Inl _ \<Rightarrow> [] | Inr f \<Rightarrow> f)"

text \<open>
  A valid input directory: each of the six category folders can be listed, and every file
  listed in them can be read.
\<close>

definition dirs_present :: "'v world \<Rightarrow> string \<Rightarrow> bool" where
  "dirs_present w img_dir =
     (\<forall>folder\<in>set folders. \<not> isl (listdir w (os_path_join img_dir [folder])))"

definition files_readable :: "'v world \<Rightarrow> string \<Rightarrow> bool" where
  "files_readable w img_dir =
     (\<forall>folder\<in>set folders. \<forall>image\<in>set (images_in w img_dir folder).
        \<not> isl (open_rb w (os_path_join img_dir [folder, image])))"

text \<open>The output file can be created.\<close>

definition output_writable :: "'v world \<Rightarrow> flags \<Rightarrow> bool" where
  "output_writable w FLAGS = (h5py_File_w w (output_file FLAGS) = None)"

text \<open>
  What the script expects of the featurizer: for a batch of \<open>n\<close> images the session
  returns an array of first-axis length \<open>n\<close> with \<open>n * 2048\<close> elements.
  \<open>per_image f\<close> is the featurizer that maps each image to the vector \<open>f image\<close>.
\<close>

definition featurizer_ok :: "(bytes list \<Rightarrow> error + 'v ndarray) \<Rightarrow> bool" where
  "featurizer_ok sess_run =
     (\<forall>image_batch.
        case sess_run image_batch of
          Inl _ \<Rightarrow> False
        | Inr a \<Rightarrow> nrows a = length image_batch \<and> length (flat a) = length image_batch * 2048)"

definition per_image :: "(bytes \<Rightarrow> 'v list) \<Rightarrow> bytes list \<Rightarrow> error + 'v ndarray" where
  "per_image f image_batch =
     Inr \<lparr>nrows = length image_batch, flat = concat (map f image_batch)\<rparr>"

text \<open>
  The name of the directory a path lies in, as \<open>os.path.basename(os.path.dirname(p))\<close>
  computes it; and the file names a directory listing can hold (not empty, no separator).
\<close>

definition basename :: "string \<Rightarrow> string" where
  "basename p = rev (takeWhile (\<lambda>c. c \<noteq> CHR ''/'') (rev p))"

definition dirname :: "string \<Rightarrow> string" where
  "dirname p =
     (let head = rev (dropWhile (\<lambda>c. c \<noteq> CHR ''/'') (rev p))
      in if head \<noteq> [] \<and> \<not> list_all (\<lambda>c. c = CHR ''/'') head
         then rev (dropWhile (\<lambda>c. c = CHR ''/'') (rev head))
         else head)"

definition parent_dir_name :: "string \<Rightarrow> string" where
  "parent_dir_name p = basename (dirname p)"

definition file_name_ok :: "string \<Rightarrow> bool" where
  "file_name_ok name = (name \<noteq> [] \<and> CHR ''/'' \<notin> set name)"


subsection \<open>Example inputs\<close>

text \<open>
  A world given by its directory listings: a path outside the table cannot be listed, every
  file can be read (its bytes are taken to be its path), an HDF5 file can be created at
  the default output path and nowhere else, and no HDF5 file exists yet.
\<close>

definition world_of :: "(string \<times> string list) list \<Rightarrow> nat world" where
  "world_of listing =
     \<lparr>listdir = (\<lambda>path. case map_of listing path of
                           None \<Rightarrow> Inl (OSError path)
                         | Some images \<Rightarrow> Inr images),
      open_rb = (\<lambda>path. Inr path),
      h5py_File_w = (\<lambda>path. if path = ''bottleneck_features/aerial_bottleneck_resnet50.h5''
                              then None else Some (OSError path)),
      h5 = Map.empty\<rparr>"

text \<open>
  Three input directories named \<open>aerialtiny\<close>: one with three images in \<open>Barren\<close>, five in
  \<open>Cultivated\<close> and four empty folders; one with six empty folders; one with the folders
  \<open>Barren\<close> and \<open>Cultivated\<close> only.
\<close>

definition tiny_world :: "nat world" where
  "tiny_world = world_of
     [(''aerialtiny/Barren'', [''b1.png'', ''b2.png'', ''b3.png'']),
      (''aerialtiny/Cultivated'', [''c1.png'', ''c2.png'', ''c3.png'', ''c4.png'', ''c5.png'']),
      (''aerialtiny/Developed'', []),
      (''aerialtiny/Forest'', []),
      (''aerialtiny/Herbaceous'', []),
      (''aerialtiny/Shrub'', [])]"

definition empty_world :: "nat world" where
  "empty_world = world_of
     [(''aerialtiny/Barren'', []),
      (''aerialtiny/Cultivated'', []),
      (''aerialtiny/Developed'', []),
      (''aerialtiny/Forest'', []),
      (''aerialtiny/Herbaceous'', []),
      (''aerialtiny/Shrub'', [])]"

definition two_folder_world :: "nat world" where
  "two_folder_world = world_of
     [(''aerialtiny/Barren'', [''b1.png'', ''b2.png'', ''b3.png'']),
      (''aerialtiny/Cultivated'', [''c1.png'', ''c2.png'', ''c3.png'', ''c4.png'', ''c5.png''])]"

text \<open>The first of these inputs again, with one image of \<open>Cultivated\<close> that cannot be read.\<close>

definition unreadable_world :: "nat world" where
  "unreadable_world =
     tiny_world\<lparr>open_rb := (\<lambda>path. if path = ''aerialtiny/Cultivated/c2.png''
                                    then Inl (OSError path) else Inr path)\<rparr>"

text \<open>
  Random draws, and two featurizers: one that maps every image to a vector of 2048 numbers,
  and one that does the same but refuses a batch of more than \<open>n\<close> images, which shows
  in the result how large the batches it is given are.
\<close>

definition example_rnd :: "nat \<Rightarrow> nat" where
  "example_rnd n = 5 * n + 2"

definition example_vector :: "bytes \<Rightarrow> nat list" where
  "example_vector img = replicate 2048 (length img)"

definition limited_featurizer :: "nat \<Rightarrow> bytes list \<Rightarrow> error + nat ndarray" where
  "limited_featurizer n image_batch =
     (if length image_batch \<le> n then per_image example_vector image_batch
      else Inl (GraphError ''batch too large''))"

section \<open>Lemmas\<close>

subsection \<open>Batching\<close>

lemma py_slice_step:
  "0 \<le> i \<Longrightarrow> 0 \<le> n \<Longrightarrow> py_slice xs i (i + n) = take (nat n) (drop (nat i) xs)"
  by (auto simp: py_slice_def Let_def min_def max_def nat_diff_distrib' nat_add_distrib)

lemma get_batch_from_concat:
  "0 < n \<Longrightarrow> 0 \<le> i \<Longrightarrow> concat (get_batch_from xs n i) = drop (nat i) xs"
proof (induction xs n i rule: get_batch_from.induct)
  case (1 xs n i)
  show ?case
  proof (cases "i < int (length xs)")
    case True
    have "concat (get_batch_from xs n i) =
            take (nat n) (drop (nat i) xs) @ drop (nat (i + n)) xs"
      using True 1 by (subst get_batch_from.simps) (simp add: py_slice_step)
    also have "drop (nat (i + n)) xs = drop (nat n) (drop (nat i) xs)"
      using 1(2,3) by (simp add: nat_add_distrib add.commute)
    also have "take (nat n) (drop (nat i) xs) @ drop (nat n) (drop (nat i) xs) = drop (nat i) xs"
      by (rule append_take_drop_id)
    finally show ?thesis .
  next
    case False
    then show ?thesis using 1(3) by (subst get_batch_from.simps) simp
  qed
qed

lemma get_batch_from_nth:
  "0 < n \<Longrightarrow> 0 \<le> i \<Longrightarrow> k < length (get_batch_from xs n i) \<Longrightarrow>
   get_batch_from xs n i ! k = take (nat n) (drop (nat i + k * nat n) xs)"
proof (induction xs n i arbitrary: k rule: get_batch_from.induct)
  case (1 xs n i)
  show ?case
  proof (cases "i < int (length xs)")
    case True
    have unf: "get_batch_from xs n i =
                 take (nat n) (drop (nat i) xs) # get_batch_from xs n (i + n)"
      using True 1(2,3) by (subst get_batch_from.simps) (simp add: py_slice_step)
    show ?thesis
    proof (cases k)
      case 0
      then show ?thesis by (simp add: unf)
    next
      case (Suc k')
      have "k' < length (get_batch_from xs n (i + n))"
        using 1(4) unf Suc by simp
      then have "get_batch_from xs n (i + n) ! k' =
                   take (nat n) (drop (nat (i + n) + k' * nat n) xs)"
        using 1(1)[of k'] True 1(2,3) by simp
      then show ?thesis using Suc unf 1(2,3) by (simp add: nat_add_distrib add.assoc)
    qed
  next
    case False
    then have "get_batch_from xs n i = []" by (subst get_batch_from.simps) simp
    then show ?thesis using 1(4) by simp
  qed
qed

lemma ceil_div_step:
  fixes m N :: nat
  assumes "0 < N" "0 < m"
  shows "(m + N - 1) div N = Suc ((m - N + N - 1) div N)"
proof (cases "N \<le> m")
  case True
  then obtain d where m: "m = N + d" using le_Suc_ex by blast
  have e1: "m + N - 1 = (d + N - 1) + N" using m assms(1) by linarith
  have e2: "m - N + N - 1 = d + N - 1" using m by linarith
  have "((d + N - 1) + N) div N = Suc ((d + N - 1) div N)"
    using assms(1) by (simp only: div_add_self2 Suc_eq_plus1)
  then show ?thesis by (simp only: e1 e2)
next
  case False
  have e1: "m + N - 1 = (m - 1) + N" using assms by linarith
  have e2: "m - N + N - 1 = N - 1" using False by linarith
  have "((m - 1) + N) div N = Suc ((m - 1) div N)"
    using assms(1) by (simp only: div_add_self2 Suc_eq_plus1)
  moreover have "(m - 1) div N = 0" using False assms by (intro div_less) linarith
  moreover have "(N - 1) div N = 0" using assms(1) by (intro div_less) linarith
  ultimately show ?thesis by (simp only: e1 e2)
qed

lemma get_batch_from_length:
  "0 < n \<Longrightarrow> 0 \<le> i \<Longrightarrow>
   length (get_batch_from xs n i) = (length xs - nat i + nat n - 1) div nat n"
proof (induction xs n i rule: get_batch_from.induct)
  case (1 xs n i)
  show ?case
  proof (cases "i < int (length xs)")
    case True
    have unf: "length (get_batch_from xs n i) = Suc (length (get_batch_from xs n (i + n)))"
      using True 1(2) by (subst get_batch_from.simps) simp
    have ih: "length (get_batch_from xs n (i + n)) =
                (length xs - nat (i + n) + nat n - 1) div nat n"
      using 1(1) True 1(2,3) by simp
    have pos: "0 < nat n" using 1(2) by simp
    have lt: "0 < length xs - nat i" using True 1(3) by linarith
    have "length xs - nat (i + n) = length xs - nat i - nat n"
      using 1(2,3) by (simp add: nat_add_distrib)
    then show ?thesis
      unfolding unf ih using ceil_div_step[OF pos lt] by simp
  next
    case False
    then have "get_batch_from xs n i = []" by (subst get_batch_from.simps) simp
    moreover have "length xs - nat i = 0" using False 1(3) by linarith
    ultimately show ?thesis using 1(2) by simp
  qed
qed

lemma batch_index_in_range:
  fixes k N len :: nat
  assumes "0 < N" "k < (len + N - 1) div N"
  shows "k * N < len"
proof -
  have "Suc k \<le> (len + N - 1) div N" using assms(2) by simp
  then have "Suc k * N \<le> len + N - 1"
    using assms(1) by (simp only: less_eq_div_iff_mult_less_eq)
  then show ?thesis using assms(1) by simp
qed

lemma batch_full:
  fixes k N len :: nat
  assumes "0 < N" "Suc k < (len + N - 1) div N"
  shows "k * N + N \<le> len"
proof -
  have "Suc k * N < len" using batch_index_in_range[OF assms] .
  then show ?thesis by simp
qed

subsection \<open>Shuffling\<close>

lemma swap_length [simp]: "length (swap x i j) = length x"
  by (simp add: swap_def)

lemma swap_mset: "i < length x \<Longrightarrow> j < length x \<Longrightarrow> mset (swap x i j) = mset x"
  unfolding swap_def using mset_swap[of j x i] by simp

lemma randbelow_less: "0 < n \<Longrightarrow> randbelow rnd n < n"
  by (simp add: randbelow_def)

lemma shuffle_steps:
  "\<forall>i\<in>set js. i < length x \<Longrightarrow>
   length (foldl (\<lambda>x i. swap x i (randbelow rnd (i + 1))) x js) = length x \<and>
   mset (foldl (\<lambda>x i. swap x i (randbelow rnd (i + 1))) x js) = mset x"
proof (induction js arbitrary: x)
  case Nil
  then show ?case by simp
next
  case (Cons i js)
  have i: "i < length x" using Cons.prems by simp
  have j: "randbelow rnd (i + 1) < length x"
    using randbelow_less[of "i + 1" rnd] i by simp
  have "\<forall>k\<in>set js. k < length (swap x i (randbelow rnd (i + 1)))"
    using Cons.prems by simp
  from Cons.IH[OF this] show ?case using swap_mset[OF i j] by simp
qed

lemma shuffle_length [simp]: "length (shuffle rnd x) = length x"
  unfolding shuffle_def using shuffle_steps[of "rev [1..<length x]" x rnd] by simp

lemma shuffle_mset [simp]: "mset (shuffle rnd x) = mset x"
  unfolding shuffle_def using shuffle_steps[of "rev [1..<length x]" x rnd] by simp

lemma shuffle_set [simp]: "set (shuffle rnd x) = set x"
  using shuffle_mset[of rnd x] by (metis set_mset_mset)

lemma shuffle_Nil_iff [simp]: "shuffle rnd x = [] \<longleftrightarrow> x = []"
  using shuffle_length[of rnd x] by (metis length_0_conv)

subsection \<open>Reading a batch\<close>

lemma load_images_ok:
  "\<forall>path\<in>set paths. \<not> isl (open_rb w path) \<Longrightarrow>
   load_images w paths = Inr (map (contents w) paths)"
  by (induction paths) (auto simp: contents_def split: sum.splits)

lemma load_images_Inr:
  "load_images w paths = Inr images \<Longrightarrow>
   (\<forall>path\<in>set paths. \<not> isl (open_rb w path)) \<and> images = map (contents w) paths"
  by (induction paths arbitrary: images) (auto simp: contents_def split: sum.splits)

subsection \<open>Reshaping\<close>

lemma np_reshape_Inr:
  "np_reshape a = Inr rows \<Longrightarrow> length rows = nrows a \<and> (\<forall>r\<in>set rows. length r = 2048)"
  by (auto simp: np_reshape_def split: if_splits)

lemma np_reshape_ok:
  "length (flat a) = nrows a * 2048 \<Longrightarrow> \<exists>rows. np_reshape a = Inr rows"
  by (simp add: np_reshape_def)

lemma rows_of_concat:
  "\<forall>r\<in>set rs. length r = n \<Longrightarrow>
   map (\<lambda>i. take n (drop (i * n) (concat rs))) [0..<length rs] = rs"
proof (induction rs rule: rev_induct)
  case Nil
  then show ?case by simp
next
  case (snoc r rs)
  have len: "length (concat rs) = length rs * n"
    using snoc.prems by (induction rs) auto
  have "map (\<lambda>i. take n (drop (i * n) (concat rs @ r))) [0..<length rs] =
        map (\<lambda>i. take n (drop (i * n) (concat rs))) [0..<length rs]"
  proof (rule map_cong[OF refl])
    fix i assume "i \<in> set [0..<length rs]"
    then have "i * n + n \<le> length rs * n"
      by (metis Suc_leI atLeastLessThan_iff mult_Suc mult_le_mono1 set_upt add.commute)
    then show "take n (drop (i * n) (concat rs @ r)) = take n (drop (i * n) (concat rs))"
      using len by simp
  qed
  then show ?case using snoc len by simp
qed

lemma np_reshape_per_image:
  "\<forall>img. length (f img) = 2048 \<Longrightarrow>
   np_reshape \<lparr>nrows = length imgs, flat = concat (map f imgs)\<rparr> = Inr (map f imgs)"
proof -
  assume a: "\<forall>img. length (f img) = 2048"
  have len: "length (concat (map f imgs)) = length imgs * 2048"
    using a by (induction imgs) auto
  have "map (\<lambda>i. take 2048 (drop (i * 2048) (concat (map f imgs)))) [0..<length (map f imgs)]
          = map f imgs"
    by (rule rows_of_concat) (use a in auto)
  then show ?thesis using len by (simp add: np_reshape_def)
qed

subsection \<open>The extraction loop\<close>

lemma extract_batches_Inr:
  "extract_batches w run batches acc = Inr out \<Longrightarrow>
   (\<forall>path\<in>set (concat batches). \<not> isl (open_rb w path)) \<and>
   (\<exists>rows. out = acc @ rows \<and> (\<forall>r\<in>set rows. length r = 2048))"
proof (induction batches arbitrary: acc)
  case Nil
  then show ?case by simp
next
  case (Cons paths rest)
  from Cons.prems obtain image_batch result rows where
    ld: "load_images w paths = Inr image_batch" and
    rs: "np_reshape result = Inr rows" and
    rec: "extract_batches w run rest (acc @ rows) = Inr out"
    by (auto split: sum.splits)
  from Cons.IH[OF rec] obtain rows' where
    r1: "\<forall>path\<in>set (concat rest). \<not> isl (open_rb w path)" and
    r2: "out = (acc @ rows) @ rows'" and r3: "\<forall>r\<in>set rows'. length r = 2048"
    by blast
  have "\<forall>r\<in>set (rows @ rows'). length r = 2048"
    using np_reshape_Inr[OF rs] r3 by auto
  moreover have "out = acc @ (rows @ rows')" using r2 by simp
  ultimately show ?case using load_images_Inr[OF ld] r1 by (metis UnE concat.simps(2) set_append)
qed

lemma extract_batches_ok:
  assumes "featurizer_ok run" "\<forall>path\<in>set (concat batches). \<not> isl (open_rb w path)"
  shows "\<exists>rows. extract_batches w run batches acc = Inr (acc @ rows) \<and>
           length rows = length (concat batches) \<and> (\<forall>r\<in>set rows. length r = 2048)"
  using assms(2)
proof (induction batches arbitrary: acc)
  case Nil
  then show ?case by simp
next
  case (Cons paths rest)
  have ld: "load_images w paths = Inr (map (contents w) paths)"
    using Cons.prems by (intro load_images_ok) simp
  obtain a where a: "run (map (contents w) paths) = Inr a" "nrows a = length paths"
      "length (flat a) = length paths * 2048"
    using assms(1)[unfolded featurizer_ok_def, rule_format, of "map (contents w) paths"]
    by (auto split: sum.splits)
  obtain rows where rows: "np_reshape a = Inr rows"
    using np_reshape_ok[of a] a by auto
  have rl: "length rows = length paths" "\<forall>r\<in>set rows. length r = 2048"
    using np_reshape_Inr[OF rows] a by auto
  have "\<forall>path\<in>set (concat rest). \<not> isl (open_rb w path)" using Cons.prems by simp
  from Cons.IH[OF this, of "acc @ rows"] obtain rows' where
    rec: "extract_batches w run rest (acc @ rows) = Inr ((acc @ rows) @ rows')"
      "length rows' = length (concat rest)" "\<forall>r\<in>set rows'. length r = 2048"
    by blast
  have "extract_batches w run (paths # rest) acc = Inr (acc @ (rows @ rows'))"
    using ld a(1) rows rec(1) by simp
  moreover have "length (rows @ rows') = length (concat (paths # rest))"
    using rl(1) rec(2) by simp
  moreover have "\<forall>r\<in>set (rows @ rows'). length r = 2048" using rl(2) rec(3) by auto
  ultimately show ?case by blast
qed

lemma extract_batches_per_image:
  assumes "\<forall>img. length (f img) = 2048" "\<forall>path\<in>set (concat batches). \<not> isl (open_rb w path)"
  shows "extract_batches w (per_image f) batches acc =
           Inr (acc @ map (\<lambda>path. f (contents w path)) (concat batches))"
  using assms(2)
proof (induction batches arbitrary: acc)
  case Nil
  then show ?case by simp
next
  case (Cons paths rest)
  have ld: "load_images w paths = Inr (map (contents w) paths)"
    using Cons.prems by (intro load_images_ok) simp
  have rs: "np_reshape \<lparr>nrows = length (map (contents w) paths),
                        flat = concat (map f (map (contents w) paths))\<rparr>
              = Inr (map f (map (contents w) paths))"
    by (rule np_reshape_per_image[OF assms(1)])
  have "\<forall>path\<in>set (concat rest). \<not> isl (open_rb w path)" using Cons.prems by simp
  from Cons.IH[OF this] show ?case using ld rs by (simp add: per_image_def comp_def)
qed

subsection \<open>Listing the folders\<close>

lemma folder_has_label: "folder \<in> set folders \<Longrightarrow> \<exists>label. map_of label_map folder = Some label"
  unfolding folders_def by (metis map_of_eq_None_iff not_Some_eq set_map)

lemma folder_entries_eq:
  assumes "folder \<in> set folders" "listdir w (os_path_join img_dir [folder]) = Inr images"
  shows "folder_entries img_dir folder images = Inr (folder_pairs w img_dir folder)"
  using assms folder_has_label[OF assms(1)]
  by (auto simp: folder_entries_def folder_pairs_def images_in_def)

lemma labeled_images_ok:
  assumes "set fs \<subseteq> set folders"
    "\<forall>folder\<in>set fs. \<not> isl (listdir w (os_path_join img_dir [folder]))"
  shows "labeled_images w img_dir fs = Inr (concat (map (folder_pairs w img_dir) fs))"
  using assms
proof (induction fs)
  case Nil
  then show ?case by simp
next
  case (Cons folder rest)
  from Cons.prems obtain images where
    ls: "listdir w (os_path_join img_dir [folder]) = Inr images"
    by (cases "listdir w (os_path_join img_dir [folder])") auto
  have "folder \<in> set folders" using Cons.prems by simp
  from folder_entries_eq[OF this ls] Cons show ?case using ls by simp
qed

lemma labeled_images_Inr:
  assumes "set fs \<subseteq> set folders" "labeled_images w img_dir fs = Inr l"
  shows "(\<forall>folder\<in>set fs. \<not> isl (listdir w (os_path_join img_dir [folder]))) \<and>
         l = concat (map (folder_pairs w img_dir) fs)"
  using assms
proof (induction fs arbitrary: l)
  case Nil
  then show ?case by simp
next
  case (Cons folder rest)
  from Cons.prems(2) obtain images here others where
    ls: "listdir w (os_path_join img_dir [folder]) = Inr images" and
    he: "folder_entries img_dir folder images = Inr here" and
    ot: "labeled_images w img_dir rest = Inr others" and l: "l = here @ others"
    by (auto split: sum.splits)
  have "folder \<in> set folders" using Cons.prems by simp
  from folder_entries_eq[OF this ls] he have "here = folder_pairs w img_dir folder" by simp
  moreover have "set rest \<subseteq> set folders" using Cons.prems by simp
  ultimately show ?case using Cons.IH[OF _ ot] ls l by simp
qed

lemma labeled_images_Inl:
  assumes "set fs \<subseteq> set folders" "labeled_images w img_dir fs = Inl e"
  shows "\<exists>folder\<in>set fs. listdir w (os_path_join img_dir [folder]) = Inl e"
  using assms
proof (induction fs)
  case Nil
  then show ?case by simp
next
  case (Cons folder rest)
  show ?case
  proof (cases "listdir w (os_path_join img_dir [folder])")
    case (Inl e')
    then show ?thesis using Cons.prems by simp
  next
    case (Inr images)
    have "folder \<in> set folders" using Cons.prems by simp
    from folder_entries_eq[OF this Inr]
    have "labeled_images w img_dir rest = Inl e"
      using Cons.prems(2) Inr by (simp split: sum.splits)
    moreover have "set rest \<subseteq> set folders" using Cons.prems by simp
    ultimately show ?thesis using Cons.IH by auto
  qed
qed

lemma labeled_image_list_ok:
  "dirs_present w img_dir \<Longrightarrow>
   labeled_image_list w img_dir = Inr (concat (map (folder_pairs w img_dir) folders))"
  unfolding labeled_image_list_def dirs_present_def by (rule labeled_images_ok) auto

lemma labeled_image_list_Inr:
  "labeled_image_list w img_dir = Inr l \<Longrightarrow>
   dirs_present w img_dir \<and> l = concat (map (folder_pairs w img_dir) folders)"
  unfolding labeled_image_list_def dirs_present_def
  using labeled_images_Inr[of folders w img_dir l] by simp

lemma labeled_image_list_Inl:
  "labeled_image_list w img_dir = Inl e \<Longrightarrow>
   \<exists>folder\<in>set folders. listdir w (os_path_join img_dir [folder]) = Inl e"
  unfolding labeled_image_list_def using labeled_images_Inl[of folders w img_dir e] by simp

lemma length_all_pairs:
  "length (concat (map (folder_pairs w img_dir) folders)) = total_image_count w img_dir"
  by (simp add: total_image_count_def folder_pairs_def length_concat comp_def)

lemma all_pairs_readable:
  "files_readable w img_dir \<Longrightarrow>
   \<forall>path\<in>set (map fst (concat (map (folder_pairs w img_dir) folders))). \<not> isl (open_rb w path)"
  by (auto simp: files_readable_def folder_pairs_def)

subsection \<open>The whole run\<close>

lemma get_batch_64:
  "\<exists>batches. get_batch image_paths 64 = Inr batches \<and> concat batches = image_paths"
  using get_batch_from_concat[of 64 0 image_paths] by (simp add: get_batch_def)

lemma all_pairs_Nil_iff:
  "concat (map (folder_pairs w img_dir) folders) = [] \<longleftrightarrow> total_image_count w img_dir = 0"
  by (metis length_all_pairs length_0_conv)

lemma create_cases:
  "(\<exists>e. create_bottleneck_features FLAGS rnd resnet w = (Inl e, w)) \<or>
   (\<exists>out. create_bottleneck_features FLAGS rnd resnet w =
            (Inr (), w\<lparr>h5 := (h5 w)(output_file FLAGS \<mapsto> out)\<rparr>))"
  unfolding create_bottleneck_features_def
  by (auto split: sum.splits prod.splits option.splits)

lemma create_Inr:
  assumes "create_bottleneck_features FLAGS rnd resnet w = (Inr (), w')"
  shows "\<exists>sess_run rows.
           resnet = Inr sess_run \<and>
           dirs_present w (input_data_dir FLAGS) \<and>
           files_readable w (input_data_dir FLAGS) \<and>
           output_writable w FLAGS \<and>
           0 < total_image_count w (input_data_dir FLAGS) \<and>
           (\<forall>r\<in>set rows. length r = 2048) \<and>
           (\<exists>batches. concat batches =
                map fst (shuffle rnd (concat (map (folder_pairs w (input_data_dir FLAGS)) folders))) \<and>
              extract_batches w sess_run batches [] = Inr rows) \<and>
           w' = w\<lparr>h5 := (h5 w)(output_file FLAGS \<mapsto>
                  \<lparr>features_dset = rows,
                   labels_dset = map snd (shuffle rnd
                     (concat (map (folder_pairs w (input_data_dir FLAGS)) folders)))\<rparr>)\<rparr>"
proof -
  define d where "d = input_data_dir FLAGS"
  define l where "l = concat (map (folder_pairs w d) folders)"
  from assms obtain l0 image_paths labels sess_run batches rows where
    a1: "labeled_image_list w d = Inr l0" and
    a2: "unzip_pairs (shuffle rnd l0) = Inr (image_paths, labels)" and
    a3: "resnet = Inr sess_run" and
    a4: "get_batch image_paths 64 = Inr batches" and
    a5: "extract_batches w sess_run batches [] = Inr rows" and
    a6: "w' = w\<lparr>h5 := (h5 w)(output_file FLAGS \<mapsto>
                  \<lparr>features_dset = rows, labels_dset = labels\<rparr>)\<rparr>" and
    a7: "output_writable w FLAGS"
    unfolding create_bottleneck_features_def d_def output_writable_def
    by (auto split: sum.splits prod.splits option.splits)
  have dp: "dirs_present w d" and l0: "l0 = l"
    using labeled_image_list_Inr[OF a1] by (simp_all add: l_def)
  have ne: "l \<noteq> []" and ip: "image_paths = map fst (shuffle rnd l)"
    and lb: "labels = map snd (shuffle rnd l)"
    using a2 l0 by (auto simp: unzip_pairs_def split: if_splits)
  have cc: "concat batches = image_paths" using get_batch_64[of image_paths] a4 by auto
  have pos: "0 < total_image_count w d"
    using ne all_pairs_Nil_iff[of w d] by (simp only: l_def)
  have rd: "\<forall>path\<in>set (concat batches). \<not> isl (open_rb w path)"
    and rw: "\<forall>r\<in>set rows. length r = 2048"
    using extract_batches_Inr[OF a5] by auto
  have "set (concat batches) = fst ` set l" using cc ip by simp
  then have fr: "files_readable w d"
    using rd unfolding files_readable_def l_def folder_pairs_def
    by (auto simp: image_iff)
  show ?thesis
    using a3 dp fr a7 pos rw cc ip a5 a6 lb unfolding d_def[symmetric] l_def[symmetric] by blast
qed

lemma create_ok:
  assumes "dirs_present w (input_data_dir FLAGS)" "files_readable w (input_data_dir FLAGS)"
    "featurizer_ok sess_run" "0 < total_image_count w (input_data_dir FLAGS)"
    "output_writable w FLAGS"
  shows "\<exists>rows. create_bottleneck_features FLAGS rnd (Inr sess_run) w =
            (Inr (), w\<lparr>h5 := (h5 w)(output_file FLAGS \<mapsto>
                  \<lparr>features_dset = rows,
                   labels_dset = map snd (shuffle rnd
                     (concat (map (folder_pairs w (input_data_dir FLAGS)) folders)))\<rparr>)\<rparr>) \<and>
           length rows = total_image_count w (input_data_dir FLAGS) \<and>
           (\<forall>r\<in>set rows. length r = 2048)"
proof -
  define d where "d = input_data_dir FLAGS"
  define l where "l = concat (map (folder_pairs w d) folders)"
  have a1: "labeled_image_list w d = Inr l"
    using labeled_image_list_ok assms(1) by (simp add: l_def d_def)
  have ne: "l \<noteq> []" using assms(4) all_pairs_Nil_iff[of w d] by (simp only: l_def d_def)
  have a2: "unzip_pairs (shuffle rnd l) = Inr (map fst (shuffle rnd l), map snd (shuffle rnd l))"
    using ne by (simp add: unzip_pairs_def)
  obtain batches where a4: "get_batch (map fst (shuffle rnd l)) 64 = Inr batches"
    and cc: "concat batches = map fst (shuffle rnd l)"
    using get_batch_64 by blast
  have "set (concat batches) = set (map fst l)" using cc by simp
  then have rd: "\<forall>path\<in>set (concat batches). \<not> isl (open_rb w path)"
    using all_pairs_readable[OF assms(2)] by (simp add: l_def d_def)
  from extract_batches_ok[OF assms(3) rd, of "[]"] obtain rows where
    a5: "extract_batches w sess_run batches [] = Inr rows" and
    ln: "length rows = length (concat batches)" and rw: "\<forall>r\<in>set rows. length r = 2048"
    by auto
  have "length rows = total_image_count w d"
    using ln cc length_all_pairs[of w d] by (simp add: l_def)
  moreover have "create_bottleneck_features FLAGS rnd (Inr sess_run) w =
            (Inr (), w\<lparr>h5 := (h5 w)(output_file FLAGS \<mapsto>
                  \<lparr>features_dset = rows, labels_dset = map snd (shuffle rnd l)\<rparr>)\<rparr>)"
    unfolding create_bottleneck_features_def d_def[symmetric]
    using a1 a2 a4 a5 assms(5) by (simp add: output_writable_def)
  ultimately show ?thesis using rw unfolding l_def d_def by blast
qed

lemma create_per_image:
  assumes "dirs_present w (input_data_dir FLAGS)" "files_readable w (input_data_dir FLAGS)"
    "\<forall>img. length (f img) = 2048" "0 < total_image_count w (input_data_dir FLAGS)"
    "output_writable w FLAGS"
  shows "create_bottleneck_features FLAGS rnd (Inr (per_image f)) w =
            (Inr (), w\<lparr>h5 := (h5 w)(output_file FLAGS \<mapsto>
                  \<lparr>features_dset = map (\<lambda>(path, label). f (contents w path)) (shuffle rnd
                     (concat (map (folder_pairs w (input_data_dir FLAGS)) folders))),
                   labels_dset = map snd (shuffle rnd
                     (concat (map (folder_pairs w (input_data_dir FLAGS)) folders)))\<rparr>)\<rparr>)"
proof -
  define d where "d = input_data_dir FLAGS"
  define l where "l = concat (map (folder_pairs w d) folders)"
  have a1: "labeled_image_list w d = Inr l"
    using labeled_image_list_ok assms(1) by (simp add: l_def d_def)
  have ne: "l \<noteq> []" using assms(4) all_pairs_Nil_iff[of w d] by (simp only: l_def d_def)
  have a2: "unzip_pairs (shuffle rnd l) = Inr (map fst (shuffle rnd l), map snd (shuffle rnd l))"
    using ne by (simp add: unzip_pairs_def)
  obtain batches where a4: "get_batch (map fst (shuffle rnd l)) 64 = Inr batches"
    and cc: "concat batches = map fst (shuffle rnd l)"
    using get_batch_64 by blast
  have "set (concat batches) = set (map fst l)" using cc by simp
  then have rd: "\<forall>path\<in>set (concat batches). \<not> isl (open_rb w path)"
    using all_pairs_readable[OF assms(2)] by (simp add: l_def d_def)
  have a5: "extract_batches w (per_image f) batches [] =
              Inr (map (\<lambda>(path, label). f (contents w path)) (shuffle rnd l))"
    using extract_batches_per_image[OF assms(3) rd, of "[]"] cc
    by (simp add: comp_def case_prod_unfold)
  show ?thesis
    unfolding create_bottleneck_features_def d_def[symmetric] l_def[symmetric]
    using a1 a2 a4 a5 assms(5) by (simp add: output_writable_def)
qed

subsection \<open>Paths\<close>

lemma join_folder_image:
  assumes "folder \<noteq> []" "CHR ''/'' \<notin> set folder" "file_name_ok name"
  shows "os_path_join img_dir [folder, name] =
           (if img_dir = [] \<or> last img_dir = CHR ''/'' then img_dir else img_dir @ ''/'')
           @ folder @ ''/'' @ name"
proof -
  have f: "hd folder \<noteq> CHR ''/''" using assms(1,2) by (cases folder) auto
  have n: "name \<noteq> []" "hd name \<noteq> CHR ''/''"
    using assms(3) by (cases name; auto simp: file_name_ok_def)+
  have l: "last folder \<noteq> CHR ''/''" using assms(1,2) by (metis last_in_set)
  show ?thesis using f n l assms(1) by (simp add: os_path_join_def join2_def)
qed

lemma takeWhile_upto_sep: "c \<notin> set xs \<Longrightarrow> takeWhile (\<lambda>x. x \<noteq> c) (xs @ c # ys) = xs"
  by (induction xs) auto

lemma dropWhile_upto_sep: "c \<notin> set xs \<Longrightarrow> dropWhile (\<lambda>x. x \<noteq> c) (xs @ c # ys) = c # ys"
  by (induction xs) auto

lemma basename_append:
  assumes "CHR ''/'' \<notin> set b" "a = [] \<or> last a = CHR ''/''"
  shows "basename (a @ b) = b"
proof -
  have nb: "CHR ''/'' \<notin> set (rev b)" using assms(1) by simp
  have "takeWhile (\<lambda>c. c \<noteq> CHR ''/'') (rev b @ rev a) = rev b"
  proof (cases "a = []")
    case True
    then show ?thesis using assms(1) by (auto simp: takeWhile_eq_all_conv)
  next
    case False
    then have "hd (rev a) = CHR ''/''" using assms(2) by (simp add: hd_rev)
    then obtain t where "rev a = CHR ''/'' # t" using False by (cases "rev a") auto
    then show ?thesis using takeWhile_upto_sep[OF nb, of t] by simp
  qed
  then show ?thesis by (simp add: basename_def)
qed

lemma dirname_append:
  assumes "folder \<noteq> []" "CHR ''/'' \<notin> set folder" "CHR ''/'' \<notin> set name"
  shows "dirname (a @ folder @ ''/'' @ name) = a @ folder"
proof -
  have nn: "CHR ''/'' \<notin> set (rev name)" using assms(3) by simp
  have d: "dropWhile (\<lambda>c. c \<noteq> CHR ''/'') (rev name @ CHR ''/'' # rev folder @ rev a)
             = CHR ''/'' # rev folder @ rev a"
    by (rule dropWhile_upto_sep[OF nn])
  have "rev folder \<noteq> []" using assms(1) by simp
  then obtain c t where rf: "rev folder = c # t" by (cases "rev folder") auto
  have "c \<in> set folder" using rf by (metis list.set_intros(1) set_rev)
  then have c: "c \<noteq> CHR ''/''" using assms(2) by auto
  have nall: "\<not> list_all (\<lambda>c. c = CHR ''/'') (a @ folder @ ''/'')"
    using assms(1,2) by (cases folder) (auto simp: list_all_iff)
  have "rev (a @ folder @ ''/'' @ name) = rev name @ CHR ''/'' # rev folder @ rev a" by simp
  then have "dirname (a @ folder @ ''/'' @ name) =
          rev (dropWhile (\<lambda>c. c = CHR ''/'') (CHR ''/'' # rev folder @ rev a))"
    using d nall unfolding dirname_def Let_def by simp
  also have "\<dots> = a @ folder" using rf c by simp
  finally show ?thesis .
qed

lemma parent_dir_name_join:
  assumes "folder \<noteq> []" "CHR ''/'' \<notin> set folder" "file_name_ok name"
  shows "parent_dir_name (os_path_join img_dir [folder, name]) = folder"
proof -
  define a where "a = (if img_dir = [] \<or> last img_dir = CHR ''/'' then img_dir else img_dir @ ''/'')"
  have a: "a = [] \<or> last a = CHR ''/''" by (simp add: a_def)
  have "os_path_join img_dir [folder, name] = a @ folder @ ''/'' @ name"
    using join_folder_image[OF assms] by (simp add: a_def)
  moreover have "dirname (a @ folder @ ''/'' @ name) = a @ folder"
    using dirname_append[OF assms(1,2)] assms(3) by (simp add: file_name_ok_def)
  ultimately show ?thesis using basename_append[OF assms(2) a] by (simp add: parent_dir_name_def)
qed

lemma folders_eq:
  "folders = [''Barren'', ''Cultivated'', ''Developed'', ''Forest'', ''Herbaceous'', ''Shrub'']"
  by (simp add: folders_def label_map_def)

lemma folder_plain: "folder \<in> set folders \<Longrightarrow> folder \<noteq> [] \<and> CHR ''/'' \<notin> set folder"
  by (auto simp: folders_eq)

lemma label_of_folder: "k < 6 \<Longrightarrow> map_of label_map (folders ! k) = Some k"
proof -
  assume "k < 6"
  then have "k = 0 \<or> k = 1 \<or> k = 2 \<or> k = 3 \<or> k = 4 \<or> k = 5" by linarith
  then show ?thesis by (auto simp: folders_eq label_map_def)
qed

lemma folder_index: "folder \<in> set folders \<Longrightarrow> \<exists>k<6. folder = folders ! k"
proof -
  assume "folder \<in> set folders"
  then obtain i where "i < length folders" "folders ! i = folder"
    by (auto simp: in_set_conv_nth)
  moreover have "length folders = 6" by (simp add: folders_eq)
  ultimately show ?thesis by auto
qed

subsection \<open>Errors of the loop\<close>

lemma load_images_Inl:
  "load_images w paths = Inl e \<Longrightarrow> \<exists>path\<in>set paths. open_rb w path = Inl e"
  by (induction paths) (auto split: sum.splits)

lemma extract_batches_Inl:
  assumes "featurizer_ok run" "extract_batches w run batches acc = Inl e"
  shows "\<exists>path\<in>set (concat batches). open_rb w path = Inl e"
  using assms(2)
proof (induction batches arbitrary: acc)
  case Nil
  then show ?case by simp
next
  case (Cons paths rest)
  show ?case
  proof (cases "load_images w paths")
    case (Inl e')
    then have "e' = e" using Cons.prems by simp
    then show ?thesis using load_images_Inl[OF Inl] by auto
  next
    case (Inr image_batch)
    obtain a where a: "run image_batch = Inr a" "nrows a = length image_batch"
      "length (flat a) = length image_batch * 2048"
      using assms(1)[unfolded featurizer_ok_def, rule_format, of image_batch]
      by (auto split: sum.splits)
    obtain rows where rows: "np_reshape a = Inr rows" using np_reshape_ok[of a] a by auto
    have "extract_batches w run rest (acc @ rows) = Inl e"
      using Cons.prems Inr a(1) rows by simp
    from Cons.IH[OF this] show ?thesis by auto
  qed
qed

subsection \<open>Labels\<close>

lemma count_list_replicate: "count_list (replicate n x) y = (if x = y then n else 0)"
  by (induction n) auto

lemma count_list_concat:
  "count_list (concat xss) y = sum_list (map (\<lambda>xs. count_list xs y) xss)"
  by (induction xss) auto

lemma snd_folder_pairs:
  "map snd (folder_pairs w img_dir folder) =
     replicate (length (images_in w img_dir folder)) (the (map_of label_map folder))"
  by (simp add: folder_pairs_def comp_def map_replicate_const)

lemma label_counts:
  assumes "k < 6"
  shows "count_list (map snd (concat (map (folder_pairs w img_dir) folders))) k =
           length (images_in w img_dir (folders ! k))"
proof -
  have "map snd (concat (map (folder_pairs w img_dir) folders)) =
          concat (map (\<lambda>folder. replicate (length (images_in w img_dir folder))
                                 (the (map_of label_map folder))) folders)"
    by (simp add: map_concat comp_def snd_folder_pairs)
  moreover have "k = 0 \<or> k = 1 \<or> k = 2 \<or> k = 3 \<or> k = 4 \<or> k = 5" using assms by linarith
  ultimately show ?thesis
    by (auto simp: count_list_concat count_list_replicate folders_eq label_map_def)
qed

lemma labels_below_6:
  "label \<in> set (map snd (concat (map (folder_pairs w img_dir) folders))) \<Longrightarrow> label < 6"
  by (auto simp: folder_pairs_def folders_eq label_map_def)

lemma count_list_shuffle:
  "count_list (map g (shuffle rnd l)) y = count_list (map g l) y"
proof -
  have "mset (map g (shuffle rnd l)) = mset (map g l)" by simp
  then show ?thesis by (metis count_mset)
qed

subsection \<open>One batch\<close>

lemma get_batch_whole:
  assumes "0 < length pathnames" "int (length pathnames) \<le> batchsize"
  shows "get_batch pathnames batchsize = Inr [pathnames]"
proof -
  have pos: "0 < batchsize" using assms by linarith
  have "get_batch_from pathnames batchsize 0 =
          py_slice pathnames 0 (0 + batchsize) # get_batch_from pathnames batchsize (0 + batchsize)"
    using assms pos by (subst get_batch_from.simps) simp
  moreover have "get_batch_from pathnames batchsize (0 + batchsize) = []"
    using assms by (subst get_batch_from.simps) simp
  moreover have "py_slice pathnames 0 (0 + batchsize) = pathnames"
    using assms pos py_slice_step[of 0 batchsize pathnames] by simp
  ultimately show ?thesis using pos by (simp add: get_batch_def)
qed

subsection \<open>The example inputs\<close>

lemma per_image_ok: "\<forall>img. length (f img) = 2048 \<Longrightarrow> featurizer_ok (per_image f)"
proof -
  assume a: "\<forall>img. length (f img) = 2048"
  have "length (concat (map f imgs)) = length imgs * 2048" for imgs
    using a by (induction imgs) auto
  then show ?thesis by (simp add: featurizer_ok_def per_image_def)
qed

lemma example_vector_length: "\<forall>img. length (example_vector img) = 2048"
  by (simp add: example_vector_def)

lemma world_of_readable: "files_readable (world_of listing) img_dir"
  by (simp add: files_readable_def world_of_def)

lemma world_of_contents: "contents (world_of listing) path = path"
  by (simp add: contents_def world_of_def)

lemma tiny_dirs_present: "dirs_present tiny_world ''aerialtiny''"
  by (simp add: dirs_present_def folders_eq tiny_world_def world_of_def os_path_join_def join2_def)

lemma tiny_images:
  "images_in tiny_world ''aerialtiny'' ''Barren'' = [''b1.png'', ''b2.png'', ''b3.png'']"
  "images_in tiny_world ''aerialtiny'' ''Cultivated'' =
     [''c1.png'', ''c2.png'', ''c3.png'', ''c4.png'', ''c5.png'']"
  "images_in tiny_world ''aerialtiny'' ''Developed'' = []"
  "images_in tiny_world ''aerialtiny'' ''Forest'' = []"
  "images_in tiny_world ''aerialtiny'' ''Herbaceous'' = []"
  "images_in tiny_world ''aerialtiny'' ''Shrub'' = []"
  by (simp_all add: images_in_def tiny_world_def world_of_def os_path_join_def join2_def)

lemma tiny_total: "total_image_count tiny_world ''aerialtiny'' = 8"
  by (simp add: total_image_count_def folders_eq tiny_images)

lemma empty_dirs_present: "dirs_present empty_world ''aerialtiny''"
  by (simp add: dirs_present_def folders_eq empty_world_def world_of_def os_path_join_def join2_def)

lemma empty_images: "folder \<in> set folders \<Longrightarrow> images_in empty_world ''aerialtiny'' folder = []"
  by (auto simp: folders_eq images_in_def empty_world_def world_of_def os_path_join_def join2_def)

lemma empty_total: "total_image_count empty_world ''aerialtiny'' = 0"
  by (simp add: total_image_count_def empty_images)

lemma two_folder_missing:
  "listdir two_folder_world (os_path_join ''aerialtiny'' [''Developed'']) =
     Inl (OSError ''aerialtiny/Developed'')"
  by (simp add: two_folder_world_def world_of_def os_path_join_def join2_def)

lemma two_folder_images:
  "images_in two_folder_world ''aerialtiny'' ''Barren'' = [''b1.png'', ''b2.png'', ''b3.png'']"
  "images_in two_folder_world ''aerialtiny'' ''Cultivated'' =
     [''c1.png'', ''c2.png'', ''c3.png'', ''c4.png'', ''c5.png'']"
  by (simp_all add: images_in_def two_folder_world_def world_of_def os_path_join_def join2_def)

lemma default_dir: "input_data_dir default_flags = ''aerialtiny''"
  by (simp add: default_flags_def)

subsection \<open>Runs that fail, and facts the claims share\<close>

lemma create_empty:
  assumes "dirs_present w (input_data_dir FLAGS)" "total_image_count w (input_data_dir FLAGS) = 0"
  shows "create_bottleneck_features FLAGS rnd resnet w = (Inl ValueError, w)"
proof -
  have "labeled_image_list w (input_data_dir FLAGS) = Inr []"
    using labeled_image_list_ok[OF assms(1)] all_pairs_Nil_iff[of w "input_data_dir FLAGS"] assms(2)
    by simp
  moreover have "shuffle rnd ([] :: (string \<times> nat) list) = []" by simp
  ultimately show ?thesis
    by (simp add: create_bottleneck_features_def unzip_pairs_def)
qed

lemma np_shape2_rows:
  "rows \<noteq> [] \<Longrightarrow> \<forall>r\<in>set rows. length r = n \<Longrightarrow> np_shape2 rows = [length rows, n]"
  by (cases rows) (auto simp: np_shape2_def)

lemma np_shape2_width:
  "np_shape2 rows = [n, k] \<Longrightarrow> length rows = n \<and> (\<forall>r\<in>set rows. length r = k)"
  by (cases rows) (auto simp: np_shape2_def split: if_splits)

lemma default_output_file:
  "output_file default_flags = ''bottleneck_features/aerial_bottleneck_resnet50.h5''"
  by (simp add: output_file_def default_flags_def os_path_join_def join2_def)

lemma tiny_writable: "output_writable tiny_world default_flags"
  by (simp add: output_writable_def default_output_file tiny_world_def world_of_def)

lemma empty_writable: "output_writable empty_world default_flags"
  by (simp add: output_writable_def default_output_file empty_world_def world_of_def)

lemma two_folder_writable: "output_writable two_folder_world default_flags"
  by (simp add: output_writable_def default_output_file two_folder_world_def world_of_def)

lemma output_file_batch_size: "output_file (FLAGS\<lparr>batch_size := b\<rparr>) = output_file FLAGS"
  by (simp add: output_file_def)

lemma output_writable_batch_size:
  "output_writable w (FLAGS\<lparr>batch_size := b\<rparr>) = output_writable w FLAGS"
  by (simp add: output_writable_def output_file_batch_size)

lemma pair_origin:
  assumes "(path, label) \<in> set (concat (map (folder_pairs w img_dir) folders))"
  shows "\<exists>folder image. folder \<in> set folders \<and> image \<in> set (images_in w img_dir folder) \<and>
           path = os_path_join img_dir [folder, image] \<and> map_of label_map folder = Some label"
proof -
  from assms obtain folder image where
    f: "folder \<in> set folders" and i: "image \<in> set (images_in w img_dir folder)" and
    p: "path = os_path_join img_dir [folder, image]" and
    l: "label = the (map_of label_map folder)"
    by (auto simp: folder_pairs_def)
  from folder_has_label[OF f] l have "map_of label_map folder = Some label" by auto
  then show ?thesis using f i p by blast
qed

lemma labeled_images_Inl_first:
  assumes "set fs \<subseteq> set folders" "labeled_images w img_dir fs = Inl e"
  shows "\<exists>pre folder post. fs = pre @ folder # post \<and>
           (\<forall>f\<in>set pre. \<not> isl (listdir w (os_path_join img_dir [f]))) \<and>
           listdir w (os_path_join img_dir [folder]) = Inl e"
  using assms
proof (induction fs)
  case Nil
  then show ?case by simp
next
  case (Cons folder rest)
  show ?case
  proof (cases "listdir w (os_path_join img_dir [folder])")
    case (Inl e')
    then have "e' = e" using Cons.prems by simp
    then have "folder # rest = [] @ folder # rest \<and>
        (\<forall>f\<in>set []. \<not> isl (listdir w (os_path_join img_dir [f]))) \<and>
        listdir w (os_path_join img_dir [folder]) = Inl e"
      using Inl by simp
    then show ?thesis by blast
  next
    case (Inr images)
    have "folder \<in> set folders" using Cons.prems by simp
    from folder_entries_eq[OF this Inr]
    have "labeled_images w img_dir rest = Inl e"
      using Cons.prems(2) Inr by (simp split: sum.splits)
    moreover have "set rest \<subseteq> set folders" using Cons.prems by simp
    ultimately obtain pre f post where
      p: "rest = pre @ f # post" "\<forall>f\<in>set pre. \<not> isl (listdir w (os_path_join img_dir [f]))"
         "listdir w (os_path_join img_dir [f]) = Inl e"
      using Cons.IH by blast
    have "folder # rest = (folder # pre) @ f # post \<and>
        (\<forall>f\<in>set (folder # pre). \<not> isl (listdir w (os_path_join img_dir [f]))) \<and>
        listdir w (os_path_join img_dir [f]) = Inl e"
      using p Inr by simp
    then show ?thesis by blast
  qed
qed

lemma create_missing_dir:
  assumes "\<not> dirs_present w (input_data_dir FLAGS)"
  shows "\<exists>e pre folder post.
           create_bottleneck_features FLAGS rnd resnet w = (Inl e, w) \<and>
           folders = pre @ folder # post \<and>
           (\<forall>f\<in>set pre. \<not> isl (listdir w (os_path_join (input_data_dir FLAGS) [f]))) \<and>
           listdir w (os_path_join (input_data_dir FLAGS) [folder]) = Inl e"
proof (cases "labeled_image_list w (input_data_dir FLAGS)")
  case (Inl e)
  then have "create_bottleneck_features FLAGS rnd resnet w = (Inl e, w)"
    by (simp add: create_bottleneck_features_def)
  moreover from Inl obtain pre folder post where
    "folders = pre @ folder # post"
    "\<forall>f\<in>set pre. \<not> isl (listdir w (os_path_join (input_data_dir FLAGS) [f]))"
    "listdir w (os_path_join (input_data_dir FLAGS) [folder]) = Inl e"
    unfolding labeled_image_list_def
    using labeled_images_Inl_first[of folders w "input_data_dir FLAGS" e] by auto
  ultimately show ?thesis by blast
next
  case (Inr l)
  then show ?thesis using labeled_image_list_Inr[OF Inr] assms by simp
qed

lemma create_unreadable:
  assumes "\<not> files_readable w (input_data_dir FLAGS)"
  shows "\<exists>e. create_bottleneck_features FLAGS rnd resnet w = (Inl e, w)"
  using create_cases[of FLAGS rnd resnet w] create_Inr[of FLAGS rnd resnet w] assms by blast

lemma create_unreadable_error:
  assumes "dirs_present w (input_data_dir FLAGS)" "featurizer_ok sess_run"
    "create_bottleneck_features FLAGS rnd (Inr sess_run) w = (Inl e, w')"
    "0 < total_image_count w (input_data_dir FLAGS)"
    "\<not> files_readable w (input_data_dir FLAGS)"
  shows "\<exists>folder\<in>set folders. \<exists>image\<in>set (images_in w (input_data_dir FLAGS) folder).
           open_rb w (os_path_join (input_data_dir FLAGS) [folder, image]) = Inl e"
proof -
  define d where "d = input_data_dir FLAGS"
  define l where "l = concat (map (folder_pairs w d) folders)"
  have a1: "labeled_image_list w d = Inr l"
    using labeled_image_list_ok assms(1) by (simp add: l_def d_def)
  have ne: "l \<noteq> []" using assms(4) all_pairs_Nil_iff[of w d] by (simp only: l_def d_def)
  have a2: "unzip_pairs (shuffle rnd l) = Inr (map fst (shuffle rnd l), map snd (shuffle rnd l))"
    using ne by (simp add: unzip_pairs_def)
  obtain batches where a4: "get_batch (map fst (shuffle rnd l)) 64 = Inr batches"
    and cc: "concat batches = map fst (shuffle rnd l)"
    using get_batch_64 by blast
  have sp: "set (concat batches) = fst ` set l" using cc by simp
  have "extract_batches w sess_run batches [] = Inl e"
  proof (cases "extract_batches w sess_run batches []")
    case (Inl e')
    then show ?thesis
      using assms(3) a1 a2 a4 unfolding create_bottleneck_features_def d_def[symmetric]
      by simp
  next
    case (Inr rows)
    from extract_batches_Inr[OF Inr]
    have "\<forall>path\<in>set (concat batches). \<not> isl (open_rb w path)" by blast
    then have rd: "\<forall>path\<in>fst ` set l. \<not> isl (open_rb w path)" unfolding sp .
    have "files_readable w d"
      unfolding files_readable_def
    proof (intro ballI)
      fix folder image
      assume "folder \<in> set folders" "image \<in> set (images_in w d folder)"
      then have "(os_path_join d [folder, image], the (map_of label_map folder)) \<in> set l"
        by (auto simp: l_def folder_pairs_def)
      then have "os_path_join d [folder, image] \<in> fst ` set l" by force
      then show "\<not> isl (open_rb w (os_path_join d [folder, image]))" using rd by blast
    qed
    then show ?thesis using assms(5) by (simp add: d_def)
  qed
  from extract_batches_Inl[OF assms(2) this] obtain path where
    "path \<in> set (concat batches)" and e: "open_rb w path = Inl e" by blast
  then have "path \<in> fst ` set l" unfolding sp by blast
  then obtain label where "(path, label) \<in> set l" by auto
  from pair_origin[OF this[unfolded l_def]] e show ?thesis unfolding d_def by blast
qed

lemma unreadable_total:
  "\<not> files_readable w img_dir \<Longrightarrow> 0 < total_image_count w img_dir"
proof -
  assume "\<not> files_readable w img_dir"
  then obtain folder image where "folder \<in> set folders" "image \<in> set (images_in w img_dir folder)"
    by (auto simp: files_readable_def)
  then have "images_in w img_dir folder \<noteq> []" "folder \<in> set folders" by auto
  then have "concat (map (folder_pairs w img_dir) folders) \<noteq> []"
    by (auto simp: folder_pairs_def)
  then show ?thesis using all_pairs_Nil_iff[of w img_dir] by blast
qed

lemma two_folder_run:
  "input_data_dir FLAGS = ''aerialtiny'' \<Longrightarrow>
   create_bottleneck_features FLAGS rnd resnet two_folder_world =
     (Inl (OSError ''aerialtiny/Developed''), two_folder_world)"
proof -
  assume d: "input_data_dir FLAGS = ''aerialtiny''"
  have "labeled_image_list two_folder_world ''aerialtiny'' = Inl (OSError ''aerialtiny/Developed'')"
    by (simp add: labeled_image_list_def folders_eq two_folder_world_def world_of_def
        os_path_join_def join2_def folder_entries_def label_map_def)
  then show ?thesis by (simp add: create_bottleneck_features_def d)
qed

lemma unreadable_dirs_present: "dirs_present unreadable_world ''aerialtiny''"
  using tiny_dirs_present by (simp add: dirs_present_def unreadable_world_def)

lemma unreadable_not_readable: "\<not> files_readable unreadable_world ''aerialtiny''"
proof -
  have "images_in unreadable_world ''aerialtiny'' ''Cultivated'' =
          [''c1.png'', ''c2.png'', ''c3.png'', ''c4.png'', ''c5.png'']"
    using tiny_images(2) by (simp add: images_in_def unreadable_world_def)
  moreover have "''Cultivated'' \<in> set folders" by (simp add: folders_eq)
  moreover have "isl (open_rb unreadable_world (os_path_join ''aerialtiny'' [''Cultivated'', ''c2.png'']))"
    by (simp add: unreadable_world_def os_path_join_def join2_def)
  ultimately show ?thesis unfolding files_readable_def
    by (metis list.set_intros(1,2))
qed

lemma label_inj:
  "folder \<in> set folders \<Longrightarrow> folder' \<in> set folders \<Longrightarrow>
   map_of label_map folder = map_of label_map folder' \<Longrightarrow> folder = folder'"
proof -
  assume a: "folder \<in> set folders" "folder' \<in> set folders"
    "map_of label_map folder = map_of label_map folder'"
  from folder_index[OF a(1)] obtain k where k: "k < 6" "folder = folders ! k" by blast
  from folder_index[OF a(2)] obtain k' where k': "k' < 6" "folder' = folders ! k'" by blast
  have "Some k = Some k'" using a(3) label_of_folder[OF k(1)] label_of_folder[OF k'(1)] k(2) k'(2)
    by simp
  then show ?thesis using k(2) k'(2) by simp
qed

lemma total_as_sum:
  "total_image_count w img_dir = (\<Sum>k<6. length (images_in w img_dir (folders ! k)))"
proof -
  have "total_image_count w img_dir =
          (\<Sum>k = 0..<length folders. length (images_in w img_dir (folders ! k)))"
    unfolding total_image_count_def by (simp add: sum_list_sum_nth)
  moreover have "length folders = 6" by (simp add: folders_eq)
  ultimately show ?thesis by (simp add: lessThan_atLeast0)
qed

lemma create_flags_batch_size:
  "create_bottleneck_features (FLAGS\<lparr>batch_size := b\<rparr>) rnd resnet w =
   create_bottleneck_features FLAGS rnd resnet w"
proof -
  have "output_file (FLAGS\<lparr>batch_size := b\<rparr>) = output_file FLAGS"
    by (simp add: output_file_def)
  then show ?thesis
    unfolding create_bottleneck_features_def
    by (simp split: sum.splits prod.splits option.splits)
qed

lemma tiny_labeled_image_list:
  "labeled_image_list tiny_world ''aerialtiny'' =
     Inr [(''aerialtiny/Barren/b1.png'', 0), (''aerialtiny/Barren/b2.png'', 0),
          (''aerialtiny/Barren/b3.png'', 0),
          (''aerialtiny/Cultivated/c1.png'', 1), (''aerialtiny/Cultivated/c2.png'', 1),
          (''aerialtiny/Cultivated/c3.png'', 1), (''aerialtiny/Cultivated/c4.png'', 1),
          (''aerialtiny/Cultivated/c5.png'', 1)]"
  unfolding labeled_image_list_ok[OF tiny_dirs_present]
  by (simp add: folders_eq folder_pairs_def tiny_images label_map_def os_path_join_def join2_def)

lemma tiny_one_batch:
  fixes sess_run :: "bytes list \<Rightarrow> error + nat ndarray"
  assumes "input_data_dir FLAGS = ''aerialtiny''" and "output_writable tiny_world FLAGS"
  shows "\<exists>image_paths labels.
           length image_paths = 8 \<and>
           get_batch image_paths 64 = Inr [image_paths] \<and>
           get_batch image_paths 4 =
             Inr [take 4 image_paths, take 4 (drop 4 image_paths)] \<and>
           create_bottleneck_features FLAGS rnd (Inr sess_run) tiny_world =
             (case sess_run (map (contents tiny_world) image_paths) of
                Inl e \<Rightarrow> (Inl e, tiny_world)
              | Inr result \<Rightarrow>
                  (case np_reshape result of
                     Inl e \<Rightarrow> (Inl e, tiny_world)
                   | Inr rows \<Rightarrow>
                       (Inr (), tiny_world\<lparr>h5 := (h5 tiny_world)(output_file FLAGS \<mapsto>
                           \<lparr>features_dset = rows, labels_dset = labels\<rparr>)\<rparr>)))"
proof -
  define l where "l = concat (map (folder_pairs tiny_world ''aerialtiny'') folders)"
  define s where "s = shuffle rnd l"
  have a1: "labeled_image_list tiny_world ''aerialtiny'' = Inr l"
    using labeled_image_list_ok[OF tiny_dirs_present] by (simp add: l_def)
  have len: "length l = 8" using length_all_pairs[of tiny_world "''aerialtiny''"] tiny_total
    by (simp add: l_def)
  then have ne: "s \<noteq> []" by (auto simp: s_def)
  have a2: "unzip_pairs s = Inr (map fst s, map snd s)" using ne by (simp add: unzip_pairs_def)
  have l8: "length (map fst s) = 8" using len by (simp add: s_def)
  have "0 < length (map fst s)" "int (length (map fst s)) \<le> 64" using l8 by simp_all
  then have a4: "get_batch (map fst s) 64 = Inr [map fst s]" by (rule get_batch_whole)
  have rd: "\<forall>path\<in>set (map fst s). \<not> isl (open_rb tiny_world path)"
    by (simp add: tiny_world_def world_of_def)
  have a5: "load_images tiny_world (map fst s) = Inr (map (contents tiny_world) (map fst s))"
    by (rule load_images_ok[OF rd])
  have g4: "get_batch (map fst s) 4 = Inr [take 4 (map fst s), take 4 (drop 4 (map fst s))]"
  proof -
    have "get_batch_from (map fst s) 4 8 = []"
      using l8 by (subst get_batch_from.simps) simp
    then have "get_batch_from (map fst s) 4 4 = [py_slice (map fst s) 4 8]"
      using l8 by (subst get_batch_from.simps) simp
    then have "get_batch_from (map fst s) 4 0 = [py_slice (map fst s) 0 4, py_slice (map fst s) 4 8]"
      using l8 by (subst get_batch_from.simps) simp
    moreover have "py_slice (map fst s) 0 4 = take 4 (map fst s)"
      using py_slice_step[of 0 4 "map fst s"] by simp
    moreover have "py_slice (map fst s) 4 8 = take 4 (drop 4 (map fst s))"
      using py_slice_step[of 4 4 "map fst s"] by simp
    ultimately show ?thesis by (simp add: get_batch_def)
  qed
  have run: "create_bottleneck_features FLAGS rnd (Inr sess_run) tiny_world =
             (case sess_run (map (contents tiny_world) (map fst s)) of
                Inl e \<Rightarrow> (Inl e, tiny_world)
              | Inr result \<Rightarrow>
                  (case np_reshape result of
                     Inl e \<Rightarrow> (Inl e, tiny_world)
                   | Inr rows \<Rightarrow>
                       (Inr (), tiny_world\<lparr>h5 := (h5 tiny_world)(output_file FLAGS \<mapsto>
                           \<lparr>features_dset = rows, labels_dset = map snd s\<rparr>)\<rparr>)))"
    unfolding create_bottleneck_features_def assms(1) s_def[symmetric]
    using a1 a2 a4 a5 assms(2)
    by (simp add: s_def[symmetric] output_writable_def split: sum.splits)
  show ?thesis using l8 a4 g4 run by blast
qed

section \<open>The claims\<close>

text \<open>
  C1, as stated, fails where all six folders are empty: the input is valid, the output
  file could be created, and the run raises \<open>ValueError\<close> and writes nothing.
\<close>

theorem output_shapes_counterexample:
  "dirs_present empty_world (input_data_dir default_flags) \<and>
   files_readable empty_world (input_data_dir default_flags) \<and>
   featurizer_ok (per_image example_vector) \<and>
   output_writable empty_world default_flags \<and>
   total_image_count empty_world (input_data_dir default_flags) = 0 \<and>
   fst (create_bottleneck_features default_flags example_rnd
          (Inr (per_image example_vector)) empty_world) = Inl ValueError \<and>
   h5 (snd (create_bottleneck_features default_flags example_rnd
          (Inr (per_image example_vector)) empty_world)) (output_file default_flags) = None"
proof -
  have d: "dirs_present empty_world (input_data_dir default_flags)"
    using empty_dirs_present by (simp add: default_dir)
  have t: "total_image_count empty_world (input_data_dir default_flags) = 0"
    using empty_total by (simp add: default_dir)
  have "h5 empty_world (output_file default_flags) = None"
    by (simp add: empty_world_def world_of_def)
  then show ?thesis
    using d t world_of_readable[of _ "input_data_dir default_flags"]
      per_image_ok[OF example_vector_length] empty_writable
      create_empty[OF d t, of example_rnd "Inr (per_image example_vector)"]
    by (simp add: empty_world_def)
qed

text \<open>
  C1 (amended). For a valid input directory (the six folders can be listed, every listed
  file can be read) that holds at least one file, a featurizer that returns one row of
  2048 numbers per image, and an output file that can be created, the run succeeds and
  writes one file at \<open>os.path.join(output_data_dir, file_name)\<close>; with \<open>N\<close> the number of
  files found in the six folders, its features have \<open>N\<close> rows, every row has 2048 entries,
  so their shape is \<open>(N, 2048)\<close>, and its labels have \<open>N\<close> entries and shape \<open>(N,)\<close>.
\<close>

theorem output_shapes:
  assumes "dirs_present w (input_data_dir FLAGS)"
    and "files_readable w (input_data_dir FLAGS)"
    and "featurizer_ok sess_run"
    and "0 < total_image_count w (input_data_dir FLAGS)"
    and "output_writable w FLAGS"
  shows "\<exists>out. create_bottleneck_features FLAGS rnd (Inr sess_run) w =
                 (Inr (), w\<lparr>h5 := (h5 w)(output_file FLAGS \<mapsto> out)\<rparr>)
           \<and> length (features_dset out) = total_image_count w (input_data_dir FLAGS)
           \<and> (\<forall>r\<in>set (features_dset out). length r = 2048)
           \<and> length (labels_dset out) = total_image_count w (input_data_dir FLAGS)
           \<and> np_shape2 (features_dset out) = [total_image_count w (input_data_dir FLAGS), 2048]
           \<and> np_shape1 (labels_dset out) = [total_image_count w (input_data_dir FLAGS)]"
proof -
  define N where "N = total_image_count w (input_data_dir FLAGS)"
  define l where "l = concat (map (folder_pairs w (input_data_dir FLAGS)) folders)"
  from create_ok[OF assms(1,2,3,4,5), of rnd] obtain rows where
    run: "create_bottleneck_features FLAGS rnd (Inr sess_run) w =
            (Inr (), w\<lparr>h5 := (h5 w)(output_file FLAGS \<mapsto>
                  \<lparr>features_dset = rows, labels_dset = map snd (shuffle rnd l)\<rparr>)\<rparr>)"
    and ln: "length rows = N" and rw: "\<forall>r\<in>set rows. length r = 2048"
    unfolding N_def l_def by blast
  have ll: "length (map snd (shuffle rnd l)) = N"
    using length_all_pairs[of w "input_data_dir FLAGS"] by (simp add: l_def N_def)
  have "rows \<noteq> []" using ln assms(4) by (auto simp: N_def)
  then have sh: "np_shape2 rows = [N, 2048]" using np_shape2_rows[OF _ rw] ln by simp
  show ?thesis
    unfolding N_def[symmetric]
    using run ln ll sh rw
    by (intro exI[of _ "\<lparr>features_dset = rows, labels_dset = map snd (shuffle rnd l)\<rparr>"])
      (simp add: np_shape1_def)
qed

theorem output_shapes_witness:
  "dirs_present tiny_world (input_data_dir default_flags) \<and>
   files_readable tiny_world (input_data_dir default_flags) \<and>
   featurizer_ok (per_image example_vector) \<and>
   0 < total_image_count tiny_world (input_data_dir default_flags) \<and>
   output_writable tiny_world default_flags \<and>
   (\<exists>out. create_bottleneck_features default_flags example_rnd (Inr (per_image example_vector))
            tiny_world =
          (Inr (), tiny_world\<lparr>h5 := (h5 tiny_world)
             (''bottleneck_features/aerial_bottleneck_resnet50.h5'' \<mapsto> out)\<rparr>)
      \<and> length (features_dset out) = 8
      \<and> list_all (\<lambda>r. length r = 2048) (features_dset out)
      \<and> length (labels_dset out) = 8
      \<and> np_shape2 (features_dset out) = [8, 2048] \<and> np_shape1 (labels_dset out) = [8])"
proof -
  have d: "dirs_present tiny_world (input_data_dir default_flags)"
    using tiny_dirs_present by (simp add: default_dir)
  have r: "files_readable tiny_world (input_data_dir default_flags)"
    by (simp add: tiny_world_def world_of_readable)
  have f: "featurizer_ok (per_image example_vector)"
    by (rule per_image_ok[OF example_vector_length])
  have t: "total_image_count tiny_world (input_data_dir default_flags) = 8"
    using tiny_total by (simp add: default_dir)
  have p: "0 < total_image_count tiny_world (input_data_dir default_flags)" using t by simp
  have o: "output_writable tiny_world default_flags" by (rule tiny_writable)
  show ?thesis
    using d r f p o output_shapes [OF d r f p o, of example_rnd]
    by (simp add: t default_output_file list_all_iff)
qed

text \<open>
  C2. With a featurizer that maps each image to a vector \<open>f image\<close> of 2048 numbers: a run
  on a valid input that holds at least one file, with an output file that can be created,
  succeeds; and in every run that succeeds,
  for every row index \<open>i\<close>, the entry at position \<open>i\<close> of the shuffled list is a pair
  \<open>(path, label)\<close> where \<open>path\<close> is \<open>os.path.join(img_dir, folder, image)\<close> for an image
  listed in a category folder, \<open>labels[i]\<close> is that \<open>label\<close>, which is the integer
  \<open>label_map\<close> gives to that folder, and \<open>features[i]\<close> is \<open>f\<close> of the bytes of the file at
  \<open>path\<close>. When the image name is a plain file name, that folder is the name of the
  directory the path lies in.
\<close>

theorem rows_aligned:
  assumes "\<forall>img. length (f img) = 2048"
  shows "(dirs_present w (input_data_dir FLAGS) \<and> files_readable w (input_data_dir FLAGS)
            \<and> 0 < total_image_count w (input_data_dir FLAGS) \<and> output_writable w FLAGS \<longrightarrow>
          (\<exists>w'. create_bottleneck_features FLAGS rnd (Inr (per_image f)) w = (Inr (), w')))
       \<and> (\<forall>w'. create_bottleneck_features FLAGS rnd (Inr (per_image f)) w = (Inr (), w') \<longrightarrow>
            (\<exists>out shuffled.
               h5 w' (output_file FLAGS) = Some out
             \<and> shuffled = shuffle rnd (concat (map (folder_pairs w (input_data_dir FLAGS)) folders))
             \<and> labeled_image_list w (input_data_dir FLAGS) =
                 Inr (concat (map (folder_pairs w (input_data_dir FLAGS)) folders))
             \<and> mset shuffled = mset (concat (map (folder_pairs w (input_data_dir FLAGS)) folders))
             \<and> length (features_dset out) = length shuffled
             \<and> length (labels_dset out) = length shuffled
             \<and> (\<forall>i<length shuffled.
                   \<exists>folder image.
                     folder \<in> set folders
                   \<and> image \<in> set (images_in w (input_data_dir FLAGS) folder)
                   \<and> shuffled ! i =
                       (os_path_join (input_data_dir FLAGS) [folder, image], labels_dset out ! i)
                   \<and> map_of label_map folder = Some (labels_dset out ! i)
                   \<and> features_dset out ! i =
                       f (contents w (os_path_join (input_data_dir FLAGS) [folder, image]))
                   \<and> (file_name_ok image \<longrightarrow>
                       parent_dir_name (os_path_join (input_data_dir FLAGS) [folder, image])
                         = folder))))"
proof (intro conjI impI allI)
  assume "dirs_present w (input_data_dir FLAGS) \<and> files_readable w (input_data_dir FLAGS)
            \<and> 0 < total_image_count w (input_data_dir FLAGS) \<and> output_writable w FLAGS"
  then show "\<exists>w'. create_bottleneck_features FLAGS rnd (Inr (per_image f)) w = (Inr (), w')"
    using create_per_image[OF _ _ assms, of w FLAGS rnd] by simp
next
  fix w'
  assume run: "create_bottleneck_features FLAGS rnd (Inr (per_image f)) w = (Inr (), w')"
  define d where "d = input_data_dir FLAGS"
  define l where "l = concat (map (folder_pairs w d) folders)"
  define s where "s = shuffle rnd l"
  define out where
    "out = \<lparr>features_dset = map (\<lambda>(path, label). f (contents w path)) s,
            labels_dset = map snd s\<rparr>"
  from create_Inr[OF run] have dp: "dirs_present w d" and fr: "files_readable w d"
    and pos: "0 < total_image_count w d" and ow: "output_writable w FLAGS"
    by (auto simp: d_def)
  have w': "w' = w\<lparr>h5 := (h5 w)(output_file FLAGS \<mapsto> out)\<rparr>"
    using create_per_image[OF dp[unfolded d_def] fr[unfolded d_def] assms pos[unfolded d_def] ow,
        of rnd] run
    by (simp add: out_def s_def l_def d_def)
  have h: "h5 w' (output_file FLAGS) = Some out" by (simp add: w')
  have ll: "labeled_image_list w d = Inr l"
    using labeled_image_list_ok[OF dp] by (simp add: l_def)
  have ms: "mset s = mset l" by (simp add: s_def)
  have rowi: "\<exists>folder image.
               folder \<in> set folders \<and> image \<in> set (images_in w d folder)
             \<and> s ! i = (os_path_join d [folder, image], labels_dset out ! i)
             \<and> map_of label_map folder = Some (labels_dset out ! i)
             \<and> features_dset out ! i = f (contents w (os_path_join d [folder, image]))
             \<and> (file_name_ok image \<longrightarrow> parent_dir_name (os_path_join d [folder, image]) = folder)"
    if i: "i < length s" for i
  proof -
    obtain path label where pl: "s ! i = (path, label)" by (cases "s ! i")
    have "s ! i \<in> set s" using i by simp
    then have "(path, label) \<in> set l" using pl by (simp add: s_def)
    from pair_origin[OF this[unfolded l_def]] obtain folder image where
      o: "folder \<in> set folders" "image \<in> set (images_in w d folder)"
         "path = os_path_join d [folder, image]" "map_of label_map folder = Some label"
      by blast
    have lab: "labels_dset out ! i = label" using i pl by (simp add: out_def)
    have feat: "features_dset out ! i = f (contents w path)" using i pl by (simp add: out_def)
    have par: "file_name_ok image \<longrightarrow> parent_dir_name (os_path_join d [folder, image]) = folder"
      using parent_dir_name_join[of folder image d] folder_plain[OF o(1)] by simp
    show ?thesis using o pl lab feat par by blast
  qed
  show "\<exists>out shuffled.
               h5 w' (output_file FLAGS) = Some out
             \<and> shuffled = shuffle rnd (concat (map (folder_pairs w (input_data_dir FLAGS)) folders))
             \<and> labeled_image_list w (input_data_dir FLAGS) =
                 Inr (concat (map (folder_pairs w (input_data_dir FLAGS)) folders))
             \<and> mset shuffled = mset (concat (map (folder_pairs w (input_data_dir FLAGS)) folders))
             \<and> length (features_dset out) = length shuffled
             \<and> length (labels_dset out) = length shuffled
             \<and> (\<forall>i<length shuffled.
                   \<exists>folder image.
                     folder \<in> set folders
                   \<and> image \<in> set (images_in w (input_data_dir FLAGS) folder)
                   \<and> shuffled ! i =
                       (os_path_join (input_data_dir FLAGS) [folder, image], labels_dset out ! i)
                   \<and> map_of label_map folder = Some (labels_dset out ! i)
                   \<and> features_dset out ! i =
                       f (contents w (os_path_join (input_data_dir FLAGS) [folder, image]))
                   \<and> (file_name_ok image \<longrightarrow>
                       parent_dir_name (os_path_join (input_data_dir FLAGS) [folder, image])
                         = folder))"
    unfolding d_def[symmetric] l_def[symmetric]
  proof (intro exI[of _ out] exI[of _ s] conjI allI impI)
    show "h5 w' (output_file FLAGS) = Some out" by (rule h)
    show "s = shuffle rnd l" by (rule s_def)
    show "labeled_image_list w d = Inr l" by (rule ll)
    show "mset s = mset l" by (rule ms)
    show "length (features_dset out) = length s" by (simp add: out_def)
    show "length (labels_dset out) = length s" by (simp add: out_def)
    show "\<exists>folder image.
               folder \<in> set folders \<and> image \<in> set (images_in w d folder)
             \<and> s ! i = (os_path_join d [folder, image], labels_dset out ! i)
             \<and> map_of label_map folder = Some (labels_dset out ! i)
             \<and> features_dset out ! i = f (contents w (os_path_join d [folder, image]))
             \<and> (file_name_ok image \<longrightarrow> parent_dir_name (os_path_join d [folder, image]) = folder)"
      if "i < length s" for i using rowi[OF that] .
  qed
qed

theorem rows_aligned_witness:
  "(\<forall>img. length (example_vector img) = 2048) \<and>
   dirs_present tiny_world (input_data_dir default_flags) \<and>
   files_readable tiny_world (input_data_dir default_flags) \<and>
   0 < total_image_count tiny_world (input_data_dir default_flags) \<and>
   output_writable tiny_world default_flags \<and>
   (\<exists>w' out. create_bottleneck_features default_flags example_rnd
                (Inr (per_image example_vector)) tiny_world = (Inr (), w')
      \<and> h5 w' (output_file default_flags) = Some out
      \<and> length (features_dset out) = 8 \<and> length (labels_dset out) = 8
      \<and> (\<exists>folder image.
            folder \<in> set folders
          \<and> image \<in> set (images_in tiny_world ''aerialtiny'' folder)
          \<and> map_of label_map folder = Some (labels_dset out ! 0)
          \<and> features_dset out ! 0 = example_vector (os_path_join ''aerialtiny'' [folder, image])))"
proof -
  have a: "\<forall>img. length (example_vector img) = 2048" by (rule example_vector_length)
  have d: "dirs_present tiny_world (input_data_dir default_flags)"
    using tiny_dirs_present by (simp add: default_dir)
  have r: "files_readable tiny_world (input_data_dir default_flags)"
    by (simp add: tiny_world_def world_of_readable)
  have t: "total_image_count tiny_world (input_data_dir default_flags) = 8"
    using tiny_total by (simp add: default_dir)
  have p: "0 < total_image_count tiny_world (input_data_dir default_flags)" using t by simp
  have ow: "output_writable tiny_world default_flags" by (rule tiny_writable)
  note T = rows_aligned [OF a, of tiny_world default_flags example_rnd]
  from T d r p ow obtain w' where
    run: "create_bottleneck_features default_flags example_rnd
            (Inr (per_image example_vector)) tiny_world = (Inr (), w')"
    by blast
  from T[THEN conjunct2, rule_format, OF run] obtain out shuffled where
    o: "h5 w' (output_file default_flags) = Some out"
       "shuffled = shuffle example_rnd
          (concat (map (folder_pairs tiny_world (input_data_dir default_flags)) folders))"
       "length (features_dset out) = length shuffled"
       "length (labels_dset out) = length shuffled"
    and rows: "\<forall>i<length shuffled.
                   \<exists>folder image.
                     folder \<in> set folders
                   \<and> image \<in> set (images_in tiny_world (input_data_dir default_flags) folder)
                   \<and> shuffled ! i =
                       (os_path_join (input_data_dir default_flags) [folder, image], labels_dset out ! i)
                   \<and> map_of label_map folder = Some (labels_dset out ! i)
                   \<and> features_dset out ! i =
                       example_vector (contents tiny_world (os_path_join (input_data_dir default_flags) [folder, image]))
                   \<and> (file_name_ok image \<longrightarrow>
                       parent_dir_name (os_path_join (input_data_dir default_flags) [folder, image])
                         = folder)"
    by blast
  have len: "length shuffled = 8"
    using o(2) length_all_pairs[of tiny_world "input_data_dir default_flags"] t by simp
  from rows len obtain folder image where
    fi: "folder \<in> set folders"
        "image \<in> set (images_in tiny_world (input_data_dir default_flags) folder)"
        "map_of label_map folder = Some (labels_dset out ! 0)"
        "features_dset out ! 0 =
           example_vector (contents tiny_world (os_path_join (input_data_dir default_flags) [folder, image]))"
    by (metis zero_less_numeral)
  have c: "contents tiny_world path = path" for path
    by (simp add: tiny_world_def world_of_contents)
  have l8: "length (features_dset out) = 8" "length (labels_dset out) = 8"
    using o(3,4) len by simp_all
  have row0: "\<exists>folder image.
            folder \<in> set folders
          \<and> image \<in> set (images_in tiny_world ''aerialtiny'' folder)
          \<and> map_of label_map folder = Some (labels_dset out ! 0)
          \<and> features_dset out ! 0 = example_vector (os_path_join ''aerialtiny'' [folder, image])"
    using fi unfolding c default_dir by blast
  have "\<exists>w' out. create_bottleneck_features default_flags example_rnd
                (Inr (per_image example_vector)) tiny_world = (Inr (), w')
      \<and> h5 w' (output_file default_flags) = Some out
      \<and> length (features_dset out) = 8 \<and> length (labels_dset out) = 8
      \<and> (\<exists>folder image.
            folder \<in> set folders
          \<and> image \<in> set (images_in tiny_world ''aerialtiny'' folder)
          \<and> map_of label_map folder = Some (labels_dset out ! 0)
          \<and> features_dset out ! 0 = example_vector (os_path_join ''aerialtiny'' [folder, image]))"
    using run o(1) l8 row0 by (intro exI[of _ w'] exI[of _ out] conjI)
  then show ?thesis using a d r p ow by (intro conjI)
qed

text \<open>
  C3. The flag \<open>batch_size\<close> has no effect on the run: \<open>get_batch\<close> is called without it and
  cuts the paths into batches of 64. With the flag set to 4 and eight images, a featurizer
  that refuses more than four images per batch is given more than four and the run ends
  with its exception; one that accepts eight gets through.
\<close>

theorem batch_size_flag_ignored:
  "create_bottleneck_features (FLAGS\<lparr>batch_size := b\<rparr>) rnd resnet w =
     create_bottleneck_features FLAGS rnd resnet w
   \<and> batch_size (default_flags\<lparr>batch_size := 4\<rparr>) = 4
   \<and> total_image_count tiny_world (input_data_dir (default_flags\<lparr>batch_size := 4\<rparr>)) = 8
   \<and> create_bottleneck_features (default_flags\<lparr>batch_size := 4\<rparr>) example_rnd
        (Inr (limited_featurizer 4)) tiny_world
       = (Inl (GraphError ''batch too large''), tiny_world)
   \<and> fst (create_bottleneck_features (default_flags\<lparr>batch_size := 4\<rparr>) example_rnd
        (Inr (limited_featurizer 8)) tiny_world) = Inr ()"
proof -
  define F where "F = default_flags\<lparr>batch_size := 4\<rparr>"
  have d: "input_data_dir F = ''aerialtiny''" by (simp add: F_def default_flags_def)
  have ow: "output_writable tiny_world F"
    using tiny_writable by (simp add: F_def output_writable_batch_size)
  have r4: "create_bottleneck_features F example_rnd (Inr (limited_featurizer 4)) tiny_world
              = (Inl (GraphError ''batch too large''), tiny_world)"
  proof -
    from tiny_one_batch[OF d ow, of example_rnd "limited_featurizer 4"] obtain image_paths labels
      where "length image_paths = 8"
        and "create_bottleneck_features F example_rnd (Inr (limited_featurizer 4)) tiny_world =
             (case limited_featurizer 4 (map (contents tiny_world) image_paths) of
                Inl e \<Rightarrow> (Inl e, tiny_world)
              | Inr result \<Rightarrow>
                  (case np_reshape result of
                     Inl e \<Rightarrow> (Inl e, tiny_world)
                   | Inr rows \<Rightarrow>
                       (Inr (), tiny_world\<lparr>h5 := (h5 tiny_world)(output_file F \<mapsto>
                           \<lparr>features_dset = rows, labels_dset = labels\<rparr>)\<rparr>)))"
      by blast
    then show ?thesis by (simp add: limited_featurizer_def)
  qed
  have r8: "fst (create_bottleneck_features F example_rnd (Inr (limited_featurizer 8)) tiny_world)
              = Inr ()"
  proof -
    from tiny_one_batch[OF d ow, of example_rnd "limited_featurizer 8"] obtain image_paths labels
      where l8: "length image_paths = 8"
        and run: "create_bottleneck_features F example_rnd (Inr (limited_featurizer 8)) tiny_world =
             (case limited_featurizer 8 (map (contents tiny_world) image_paths) of
                Inl e \<Rightarrow> (Inl e, tiny_world)
              | Inr result \<Rightarrow>
                  (case np_reshape result of
                     Inl e \<Rightarrow> (Inl e, tiny_world)
                   | Inr rows \<Rightarrow>
                       (Inr (), tiny_world\<lparr>h5 := (h5 tiny_world)(output_file F \<mapsto>
                           \<lparr>features_dset = rows, labels_dset = labels\<rparr>)\<rparr>)))"
      by blast
    define imgs where "imgs = map (contents tiny_world) image_paths"
    have "length imgs = 8" using l8 by (simp add: imgs_def)
    then have lim: "limited_featurizer 8 imgs =
            Inr \<lparr>nrows = length imgs, flat = concat (map example_vector imgs)\<rparr>"
      by (simp add: limited_featurizer_def per_image_def)
    have rs: "np_reshape \<lparr>nrows = length imgs, flat = concat (map example_vector imgs)\<rparr>
                = Inr (map example_vector imgs)"
      by (rule np_reshape_per_image[OF example_vector_length])
    show ?thesis
      unfolding run imgs_def[symmetric] lim by (simp only: rs sum.case fst_conv)
  qed
  have t: "total_image_count tiny_world (input_data_dir F) = 8" using tiny_total d by simp
  show ?thesis
    using create_flags_batch_size[of b FLAGS rnd resnet w] r4 r8 t
    unfolding F_def by simp
qed

text \<open>
  C4. For a positive batch size, \<open>get_batch\<close> yields contiguous slices of the list whose
  concatenation, in order, is the list: batch \<open>k\<close> is the \<open>batchsize\<close> entries from position
  \<open>k * batchsize\<close> on, every batch before the last has exactly \<open>batchsize\<close> entries, and
  the last one has between one and \<open>batchsize\<close>.
\<close>

theorem get_batch_partition:
  assumes "0 < batchsize"
  shows "\<exists>batches. get_batch pathnames batchsize = Inr batches
           \<and> concat batches = pathnames
           \<and> (\<forall>k<length batches.
                 batches ! k = take (nat batchsize) (drop (k * nat batchsize) pathnames))
           \<and> (\<forall>k. Suc k < length batches \<longrightarrow> length (batches ! k) = nat batchsize)
           \<and> (batches \<noteq> [] \<longrightarrow>
                 0 < length (last batches) \<and> length (last batches) \<le> nat batchsize)"
proof -
  define N where "N = nat batchsize"
  define batches where "batches = get_batch_from pathnames batchsize 0"
  have pos: "0 < N" using assms by (simp add: N_def)
  have gb: "get_batch pathnames batchsize = Inr batches"
    using assms by (simp add: get_batch_def batches_def)
  have cc: "concat batches = pathnames"
    using get_batch_from_concat[OF assms, of 0 pathnames] by (simp add: batches_def)
  have len: "length batches = (length pathnames + N - 1) div N"
    using get_batch_from_length[OF assms, of 0 pathnames] by (simp add: batches_def N_def)
  have nth: "batches ! k = take N (drop (k * N) pathnames)" if "k < length batches" for k
    using get_batch_from_nth[OF assms, of 0 k pathnames] that by (simp add: batches_def N_def)
  have full: "length (batches ! k) = N" if "Suc k < length batches" for k
  proof -
    have "k * N + N \<le> length pathnames" using batch_full[OF pos] that len by simp
    moreover have "k < length batches" using that by simp
    ultimately show ?thesis by (simp add: nth)
  qed
  have lst: "0 < length (last batches) \<and> length (last batches) \<le> N" if "batches \<noteq> []"
  proof -
    define k where "k = length batches - 1"
    have k: "k < length batches" using that by (simp add: k_def)
    have "last batches = batches ! k" using that by (simp add: last_conv_nth k_def)
    moreover have "k * N < length pathnames"
      using batch_index_in_range[OF pos] k len by simp
    ultimately show ?thesis using k pos by (simp add: nth)
  qed
  show ?thesis
    using gb cc nth full lst unfolding N_def by blast
qed

theorem get_batch_partition_witness:
  "0 < (2::int) \<and>
   (\<exists>batches. get_batch ''abcde'' 2 = Inr batches \<and> concat batches = ''abcde''
      \<and> batches ! 0 = ''ab'' \<and> batches ! 1 = ''cd'' \<and> batches ! 2 = ''e''
      \<and> length (batches ! 0) = 2 \<and> length (batches ! 1) = 2 \<and> length (last batches) = 1)"
proof -
  have h: "0 < (2::int)" by simp
  have e: "get_batch ''abcde'' 2 = Inr [''ab'', ''cd'', ''e'']"
    by (simp add: get_batch_def get_batch_from.simps py_slice_def)
  show ?thesis using h get_batch_partition [OF h, of "''abcde''"] e by simp
qed

text \<open>
  C5. When a category folder cannot be listed or a listed file cannot be read, the run ends
  with an exception and the world is as it was before the run: no output file is written.
  When a folder cannot be listed, the exception is the one \<open>os.listdir\<close> raised for the
  first such folder. When the folders can be listed and the featurizer does its part, the
  exception is the one \<open>open\<close> raised for a listed file.
\<close>

theorem fail_fast:
  assumes "\<not> dirs_present w (input_data_dir FLAGS) \<or> \<not> files_readable w (input_data_dir FLAGS)"
  shows "\<exists>e. create_bottleneck_features FLAGS rnd resnet w = (Inl e, w)
           \<and> (\<not> dirs_present w (input_data_dir FLAGS) \<longrightarrow>
                (\<exists>pre folder post.
                   folders = pre @ folder # post
                 \<and> (\<forall>f\<in>set pre. \<not> isl (listdir w (os_path_join (input_data_dir FLAGS) [f])))
                 \<and> listdir w (os_path_join (input_data_dir FLAGS) [folder]) = Inl e))
           \<and> (dirs_present w (input_data_dir FLAGS)
                \<and> (\<exists>sess_run. resnet = Inr sess_run \<and> featurizer_ok sess_run) \<longrightarrow>
                (\<exists>folder\<in>set folders. \<exists>image\<in>set (images_in w (input_data_dir FLAGS) folder).
                   open_rb w (os_path_join (input_data_dir FLAGS) [folder, image]) = Inl e))"
proof (cases "dirs_present w (input_data_dir FLAGS)")
  case False
  from create_missing_dir[OF False, of rnd resnet] show ?thesis using False by blast
next
  case True
  then have nr: "\<not> files_readable w (input_data_dir FLAGS)" using assms by simp
  from create_unreadable[OF nr, of rnd resnet] obtain e where
    e: "create_bottleneck_features FLAGS rnd resnet w = (Inl e, w)" by blast
  have "\<exists>folder\<in>set folders. \<exists>image\<in>set (images_in w (input_data_dir FLAGS) folder).
          open_rb w (os_path_join (input_data_dir FLAGS) [folder, image]) = Inl e"
    if "resnet = Inr sess_run" "featurizer_ok sess_run" for sess_run
    using create_unreadable_error[OF True that(2) _ unreadable_total[OF nr] nr] e that(1) by simp
  then show ?thesis using e True by blast
qed

theorem fail_fast_witness:
  "\<not> files_readable unreadable_world (input_data_dir default_flags) \<and>
   create_bottleneck_features default_flags example_rnd (Inr (per_image example_vector))
     unreadable_world
     = (Inl (OSError ''aerialtiny/Cultivated/c2.png''), unreadable_world) \<and>
   \<not> dirs_present two_folder_world (input_data_dir default_flags) \<and>
   create_bottleneck_features default_flags example_rnd (Inr (per_image example_vector))
     two_folder_world
     = (Inl (OSError ''aerialtiny/Developed''), two_folder_world)"
proof -
  have nd: "\<not> dirs_present two_folder_world (input_data_dir default_flags)"
    using two_folder_missing by (auto simp: dirs_present_def default_dir folders_eq)
  have h2: "\<not> dirs_present two_folder_world (input_data_dir default_flags)
             \<or> \<not> files_readable two_folder_world (input_data_dir default_flags)"
    using nd by simp
  from fail_fast [OF h2, of example_rnd "Inr (per_image example_vector)"] obtain e2 where
    "create_bottleneck_features default_flags example_rnd (Inr (per_image example_vector))
       two_folder_world = (Inl e2, two_folder_world)"
    by blast
  then have run2: "create_bottleneck_features default_flags example_rnd
       (Inr (per_image example_vector)) two_folder_world
     = (Inl (OSError ''aerialtiny/Developed''), two_folder_world)"
    using two_folder_run[OF default_dir, of example_rnd "Inr (per_image example_vector)"]
    by simp
  have nr: "\<not> files_readable unreadable_world (input_data_dir default_flags)"
    using unreadable_not_readable by (simp add: default_dir)
  have dp: "dirs_present unreadable_world (input_data_dir default_flags)"
    using unreadable_dirs_present by (simp add: default_dir)
  have ok: "featurizer_ok (per_image example_vector)"
    by (rule per_image_ok[OF example_vector_length])
  have h: "\<not> dirs_present unreadable_world (input_data_dir default_flags)
             \<or> \<not> files_readable unreadable_world (input_data_dir default_flags)"
    using nr by simp
  from fail_fast [OF h, of example_rnd "Inr (per_image example_vector)"] dp ok
  obtain e path where
    run: "create_bottleneck_features default_flags example_rnd (Inr (per_image example_vector))
            unreadable_world = (Inl e, unreadable_world)"
    and e: "open_rb unreadable_world path = Inl e"
    by blast
  have "e = OSError ''aerialtiny/Cultivated/c2.png''"
    using e by (auto simp: unreadable_world_def split: if_splits)
  then show ?thesis using nr run nd run2 by simp
qed

text \<open>
  C6, as stated, fails where every folder is empty: \<open>Barren\<close> exists and holds no file,
  the output file could be created, and the run raises \<open>ValueError\<close>.
\<close>

theorem empty_folder_counterexample:
  "''Barren'' \<in> set folders \<and>
   listdir empty_world (os_path_join (input_data_dir default_flags) [''Barren'']) = Inr [] \<and>
   dirs_present empty_world (input_data_dir default_flags) \<and>
   files_readable empty_world (input_data_dir default_flags) \<and>
   featurizer_ok (per_image example_vector) \<and>
   output_writable empty_world default_flags \<and>
   create_bottleneck_features default_flags example_rnd (Inr (per_image example_vector)) empty_world
     = (Inl ValueError, empty_world)"
proof -
  have d: "dirs_present empty_world (input_data_dir default_flags)"
    using empty_dirs_present by (simp add: default_dir)
  have t: "total_image_count empty_world (input_data_dir default_flags) = 0"
    using empty_total by (simp add: default_dir)
  have b: "listdir empty_world (os_path_join (input_data_dir default_flags) [''Barren'']) = Inr []"
    by (simp add: default_dir empty_world_def world_of_def os_path_join_def join2_def)
  show ?thesis
    using d b world_of_readable[of _ "input_data_dir default_flags"]
      per_image_ok[OF example_vector_length] empty_writable
      create_empty[OF d t, of example_rnd "Inr (per_image example_vector)"]
    by (simp add: empty_world_def folders_eq)
qed

text \<open>
  C6 (amended). When a category folder exists and holds no file, the other folders can be
  listed, every listed file can be read, the featurizer returns one row of 2048 numbers per
  image, the output file can be created, and the folders together hold at least one file:
  the labelled list is built without error, no pair of it carries the label of the empty folder, its length is the
  number of files in the other five folders, and the run succeeds and writes that many
  feature rows and labels, none of them the label of the empty folder.
\<close>

theorem empty_folder_contributes_nothing:
  assumes "dirs_present w (input_data_dir FLAGS)"
    and "files_readable w (input_data_dir FLAGS)"
    and "featurizer_ok sess_run"
    and "folder \<in> set folders"
    and "listdir w (os_path_join (input_data_dir FLAGS) [folder]) = Inr []"
    and "0 < total_image_count w (input_data_dir FLAGS)"
    and "output_writable w FLAGS"
  shows "\<exists>l out.
           labeled_image_list w (input_data_dir FLAGS) = Inr l
         \<and> filter (\<lambda>(path, label). map_of label_map folder = Some label) l = []
         \<and> length l = sum_list (map (\<lambda>f. length (images_in w (input_data_dir FLAGS) f))
                                  (remove1 folder folders))
         \<and> create_bottleneck_features FLAGS rnd (Inr sess_run) w =
             (Inr (), w\<lparr>h5 := (h5 w)(output_file FLAGS \<mapsto> out)\<rparr>)
         \<and> length (features_dset out) = length l
         \<and> length (labels_dset out) = length l
         \<and> filter (\<lambda>label. map_of label_map folder = Some label) (labels_dset out) = []"
proof -
  define d where "d = input_data_dir FLAGS"
  define l where "l = concat (map (folder_pairs w d) folders)"
  have emp: "images_in w d folder = []" using assms(5) by (simp add: images_in_def d_def)
  have ll: "labeled_image_list w d = Inr l"
    using labeled_image_list_ok assms(1) by (simp add: l_def d_def)
  have none: "map_of label_map folder \<noteq> Some label" if "(path, label) \<in> set l" for path label
  proof
    assume eq: "map_of label_map folder = Some label"
    from pair_origin[OF that[unfolded l_def]] obtain folder' image where
      o: "folder' \<in> set folders" "image \<in> set (images_in w d folder')"
         "map_of label_map folder' = Some label"
      by blast
    have "folder = folder'" using label_inj[OF assms(4) o(1)] eq o(3) by simp
    then show False using o(2) emp by simp
  qed
  then have none': "\<forall>x\<in>set l. map_of label_map folder \<noteq> Some (snd x)"
    by (metis prod.collapse)
  then have f1: "filter (\<lambda>(path, label). map_of label_map folder = Some label) l = []"
    by (simp add: filter_empty_conv case_prod_unfold)
  have len: "length l = sum_list (map (\<lambda>f. length (images_in w d f)) (remove1 folder folders))"
    using length_all_pairs[of w d] sum_list_map_remove1[OF assms(4), of "\<lambda>f. length (images_in w d f)"] emp
    by (simp add: l_def total_image_count_def)
  from create_ok[OF assms(1,2,3,6,7), of rnd] obtain rows where
    run: "create_bottleneck_features FLAGS rnd (Inr sess_run) w =
            (Inr (), w\<lparr>h5 := (h5 w)(output_file FLAGS \<mapsto>
                  \<lparr>features_dset = rows, labels_dset = map snd (shuffle rnd l)\<rparr>)\<rparr>)"
    and ln: "length rows = total_image_count w d"
    unfolding l_def d_def by blast
  have ln': "length rows = length l" using ln length_all_pairs[of w d] by (simp add: l_def)
  have f2: "filter (\<lambda>label. map_of label_map folder = Some label) (map snd (shuffle rnd l)) = []"
    using none' by (simp add: filter_empty_conv)
  show ?thesis
    unfolding d_def[symmetric]
    using ll f1 len run ln' f2
    by (intro exI[of _ l] exI[of _ "\<lparr>features_dset = rows, labels_dset = map snd (shuffle rnd l)\<rparr>"])
      simp
qed

theorem empty_folder_contributes_nothing_witness:
  "dirs_present tiny_world (input_data_dir default_flags) \<and>
   files_readable tiny_world (input_data_dir default_flags) \<and>
   featurizer_ok (per_image example_vector) \<and>
   ''Forest'' \<in> set folders \<and>
   listdir tiny_world (os_path_join (input_data_dir default_flags) [''Forest'']) = Inr [] \<and>
   0 < total_image_count tiny_world (input_data_dir default_flags) \<and>
   output_writable tiny_world default_flags \<and>
   (\<exists>l out.
      labeled_image_list tiny_world (input_data_dir default_flags) = Inr l
    \<and> length l = 8
    \<and> create_bottleneck_features default_flags example_rnd (Inr (per_image example_vector))
         tiny_world =
        (Inr (), tiny_world\<lparr>h5 := (h5 tiny_world)(output_file default_flags \<mapsto> out)\<rparr>)
    \<and> length (features_dset out) = 8
    \<and> length (labels_dset out) = 8
    \<and> filter (\<lambda>label. label = 3) (labels_dset out) = [])"
proof -
  have d: "dirs_present tiny_world (input_data_dir default_flags)"
    using tiny_dirs_present by (simp add: default_dir)
  have r: "files_readable tiny_world (input_data_dir default_flags)"
    by (simp add: tiny_world_def world_of_readable)
  have f: "featurizer_ok (per_image example_vector)"
    by (rule per_image_ok[OF example_vector_length])
  have m: "''Forest'' \<in> set folders" by (simp add: folders_eq)
  have e: "listdir tiny_world (os_path_join (input_data_dir default_flags) [''Forest'']) = Inr []"
    by (simp add: default_dir tiny_world_def world_of_def os_path_join_def join2_def)
  have p: "0 < total_image_count tiny_world (input_data_dir default_flags)"
    using tiny_total by (simp add: default_dir)
  have s: "sum_list (map (\<lambda>f. length (images_in tiny_world (input_data_dir default_flags) f))
             (remove1 ''Forest'' folders)) = 8"
    by (simp add: folders_eq default_dir tiny_images)
  have lab: "(map_of label_map ''Forest'' = Some label) = (label = 3)" for label
    by (auto simp: label_map_def)
  have ow: "output_writable tiny_world default_flags" by (rule tiny_writable)
  from empty_folder_contributes_nothing [OF d r f m e p ow, of example_rnd]
  obtain l out where
    o: "labeled_image_list tiny_world (input_data_dir default_flags) = Inr l"
       "length l = 8"
       "create_bottleneck_features default_flags example_rnd (Inr (per_image example_vector))
          tiny_world =
        (Inr (), tiny_world\<lparr>h5 := (h5 tiny_world)(output_file default_flags \<mapsto> out)\<rparr>)"
       "length (features_dset out) = length l"
       "length (labels_dset out) = length l"
       "filter (\<lambda>label. label = 3) (labels_dset out) = []"
    unfolding s lab by blast
  have "\<exists>l out.
      labeled_image_list tiny_world (input_data_dir default_flags) = Inr l
    \<and> length l = 8
    \<and> create_bottleneck_features default_flags example_rnd (Inr (per_image example_vector))
         tiny_world =
        (Inr (), tiny_world\<lparr>h5 := (h5 tiny_world)(output_file default_flags \<mapsto> out)\<rparr>)
    \<and> length (features_dset out) = 8
    \<and> length (labels_dset out) = 8
    \<and> filter (\<lambda>label. label = 3) (labels_dset out) = []"
    using o by (intro exI[of _ l] exI[of _ out]) simp
  then show ?thesis using d r f m e p ow by (intro conjI)
qed

text \<open>
  C7, as stated, fails for an input directory that holds the two category folders alone:
  with three images in \<open>Barren\<close>, five in \<open>Cultivated\<close> and no other folder, every file
  readable, a featurizer that does its part and an output file that could be created, the
  run raises the exception of \<open>os.listdir\<close> for \<open>Developed\<close> and writes nothing.
\<close>

theorem two_categories_counterexample:
  "length (images_in two_folder_world ''aerialtiny'' ''Barren'') = 3 \<and>
   length (images_in two_folder_world ''aerialtiny'' ''Cultivated'') = 5 \<and>
   batch_size (default_flags\<lparr>batch_size := 4\<rparr>) = 4 \<and>
   input_data_dir (default_flags\<lparr>batch_size := 4\<rparr>) = ''aerialtiny'' \<and>
   files_readable two_folder_world ''aerialtiny'' \<and>
   featurizer_ok (per_image example_vector) \<and>
   output_writable two_folder_world (default_flags\<lparr>batch_size := 4\<rparr>) \<and>
   create_bottleneck_features (default_flags\<lparr>batch_size := 4\<rparr>) example_rnd
       (Inr (per_image example_vector)) two_folder_world
     = (Inl (OSError ''aerialtiny/Developed''), two_folder_world)"
proof -
  have r: "files_readable two_folder_world ''aerialtiny''"
    by (simp add: two_folder_world_def world_of_readable)
  have f: "featurizer_ok (per_image example_vector)"
    by (rule per_image_ok[OF example_vector_length])
  have o: "output_writable two_folder_world (default_flags\<lparr>batch_size := 4\<rparr>)"
    using two_folder_writable by (simp add: output_writable_batch_size)
  show ?thesis
    using two_folder_run[of "default_flags\<lparr>batch_size := 4\<rparr>" example_rnd
        "Inr (per_image example_vector)"] r f o
    by (simp add: two_folder_images default_dir)
qed

text \<open>
  C7 (amended). For an input directory in which all six category folders exist, two of
  them hold three and five images and the other four are empty, with every file readable,
  a featurizer that returns one row of 2048 numbers per image and an output file that can
  be created, the run with the flag \<open>batch_size\<close> set to 4 writes eight feature rows of 2048
  entries each, of shape \<open>(8, 2048)\<close>, and labels of shape \<open>(8,)\<close>; the set of label values is
  the two folders' indices, which occur three and five times.
\<close>

theorem two_categories:
  assumes "dirs_present w (input_data_dir FLAGS)"
    and "files_readable w (input_data_dir FLAGS)"
    and "featurizer_ok sess_run"
    and "c1 < 6" and "c2 < 6" and "c1 \<noteq> c2"
    and "length (images_in w (input_data_dir FLAGS) (folders ! c1)) = 3"
    and "length (images_in w (input_data_dir FLAGS) (folders ! c2)) = 5"
    and "\<forall>k<6. k \<noteq> c1 \<and> k \<noteq> c2 \<longrightarrow> images_in w (input_data_dir FLAGS) (folders ! k) = []"
    and "output_writable w FLAGS"
  shows "\<exists>out. create_bottleneck_features (FLAGS\<lparr>batch_size := 4\<rparr>) rnd (Inr sess_run) w =
                 (Inr (), w\<lparr>h5 := (h5 w)(output_file FLAGS \<mapsto> out)\<rparr>)
           \<and> length (features_dset out) = 8
           \<and> (\<forall>r\<in>set (features_dset out). length r = 2048)
           \<and> np_shape2 (features_dset out) = [8, 2048]
           \<and> np_shape1 (labels_dset out) = [8]
           \<and> set (labels_dset out) = {c1, c2}
           \<and> count_list (labels_dset out) c1 = 3
           \<and> count_list (labels_dset out) c2 = 5"
proof -
  define d where "d = input_data_dir FLAGS"
  define n where "n = (\<lambda>k. length (images_in w d (folders ! k)))"
  define l where "l = concat (map (folder_pairs w d) folders)"
  define labels where "labels = map snd (shuffle rnd l)"
  have n1: "n c1 = 3" and n2: "n c2 = 5" and n0: "\<And>k. k < 6 \<Longrightarrow> k \<noteq> c1 \<Longrightarrow> k \<noteq> c2 \<Longrightarrow> n k = 0"
    using assms(7,8,9) by (simp_all add: n_def d_def)
  have "sum n {..<6} = n c1 + sum n ({..<6} - {c1})"
    using assms(4) by (intro sum.remove) auto
  also have "sum n ({..<6} - {c1}) = n c2 + sum n ({..<6} - {c1} - {c2})"
    using assms(5,6) by (intro sum.remove) auto
  also have "sum n ({..<6} - {c1} - {c2}) = 0"
    using n0 by (intro sum.neutral) auto
  finally have tot: "total_image_count w d = 8"
    using n1 n2 by (simp add: total_as_sum n_def)
  then have pos: "0 < total_image_count w d" by simp
  from create_ok[OF assms(1,2,3) pos[unfolded d_def] assms(10), of rnd] obtain rows where
    run: "create_bottleneck_features FLAGS rnd (Inr sess_run) w =
            (Inr (), w\<lparr>h5 := (h5 w)(output_file FLAGS \<mapsto>
                  \<lparr>features_dset = rows, labels_dset = labels\<rparr>)\<rparr>)"
    and ln: "length rows = 8" and rw: "\<forall>r\<in>set rows. length r = 2048"
    unfolding l_def d_def labels_def using tot[unfolded d_def] by auto
  have "rows \<noteq> []" using ln by auto
  then have sh: "np_shape2 rows = [8, 2048]" using np_shape2_rows[OF _ rw] ln by simp
  have ll: "length labels = 8"
    using length_all_pairs[of w d] tot by (simp add: labels_def l_def)
  have cnt: "count_list labels k = n k" if "k < 6" for k
    using label_counts[OF that, of w d] count_list_shuffle[of snd rnd l k]
    by (simp add: labels_def l_def n_def)
  have below: "k < 6" if "k \<in> set labels" for k
    using that labels_below_6[of k w d] by (simp add: labels_def l_def)
  have "set labels = {c1, c2}"
  proof (intro set_eqI iffI)
    fix k assume k: "k \<in> set labels"
    then have "count_list labels k \<noteq> 0" by (simp add: count_list_0_iff)
    then have "n k \<noteq> 0" using cnt[OF below[OF k]] by simp
    then show "k \<in> {c1, c2}" using n0[OF below[OF k]] by auto
  next
    fix k assume "k \<in> {c1, c2}"
    then have "k < 6" "n k \<noteq> 0" using assms(4,5) n1 n2 by auto
    then have "count_list labels k \<noteq> 0" using cnt by simp
    then show "k \<in> set labels" by (simp add: count_list_0_iff)
  qed
  moreover have "count_list labels c1 = 3" "count_list labels c2 = 5"
    using cnt assms(4,5) n1 n2 by simp_all
  ultimately show ?thesis
    using run sh ll ln rw
    by (intro exI[of _ "\<lparr>features_dset = rows, labels_dset = labels\<rparr>"])
      (simp add: create_flags_batch_size np_shape1_def)
qed

theorem two_categories_witness:
  "dirs_present tiny_world (input_data_dir default_flags) \<and>
   files_readable tiny_world (input_data_dir default_flags) \<and>
   featurizer_ok (per_image example_vector) \<and>
   (0::nat) < 6 \<and> (1::nat) < 6 \<and> (0::nat) \<noteq> 1 \<and>
   length (images_in tiny_world (input_data_dir default_flags) (folders ! 0)) = 3 \<and>
   length (images_in tiny_world (input_data_dir default_flags) (folders ! 1)) = 5 \<and>
   images_in tiny_world (input_data_dir default_flags) (folders ! 2) = [] \<and>
   images_in tiny_world (input_data_dir default_flags) (folders ! 3) = [] \<and>
   images_in tiny_world (input_data_dir default_flags) (folders ! 4) = [] \<and>
   images_in tiny_world (input_data_dir default_flags) (folders ! 5) = [] \<and>
   output_writable tiny_world default_flags \<and>
   (\<exists>out. create_bottleneck_features (default_flags\<lparr>batch_size := 4\<rparr>) example_rnd
             (Inr (per_image example_vector)) tiny_world =
                 (Inr (), tiny_world\<lparr>h5 := (h5 tiny_world)(output_file default_flags \<mapsto> out)\<rparr>)
           \<and> length (features_dset out) = 8
           \<and> list_all (\<lambda>r. length r = 2048) (features_dset out)
           \<and> np_shape2 (features_dset out) = [8, 2048]
           \<and> np_shape1 (labels_dset out) = [8]
           \<and> set (labels_dset out) = {0, 1}
           \<and> count_list (labels_dset out) 0 = 3
           \<and> count_list (labels_dset out) 1 = 5)"
proof -
  have d: "dirs_present tiny_world (input_data_dir default_flags)"
    using tiny_dirs_present by (simp add: default_dir)
  have r: "files_readable tiny_world (input_data_dir default_flags)"
    by (simp add: tiny_world_def world_of_readable)
  have f: "featurizer_ok (per_image example_vector)"
    by (rule per_image_ok[OF example_vector_length])
  have i0: "length (images_in tiny_world (input_data_dir default_flags) (folders ! 0)) = 3"
    and i1: "length (images_in tiny_world (input_data_dir default_flags) (folders ! 1)) = 5"
    and i2: "images_in tiny_world (input_data_dir default_flags) (folders ! 2) = []"
    and i3: "images_in tiny_world (input_data_dir default_flags) (folders ! 3) = []"
    and i4: "images_in tiny_world (input_data_dir default_flags) (folders ! 4) = []"
    and i5: "images_in tiny_world (input_data_dir default_flags) (folders ! 5) = []"
    by (simp_all add: default_dir folders_eq tiny_images)
  have rest: "\<forall>k<6. k \<noteq> 0 \<and> k \<noteq> 1 \<longrightarrow>
                images_in tiny_world (input_data_dir default_flags) (folders ! k) = []"
  proof (intro allI impI)
    fix k :: nat assume "k < 6" "k \<noteq> 0 \<and> k \<noteq> 1"
    then have "k = 2 \<or> k = 3 \<or> k = 4 \<or> k = 5" by linarith
    then show "images_in tiny_world (input_data_dir default_flags) (folders ! k) = []"
      using i2 i3 i4 i5 by auto
  qed
  have c: "(0::nat) < 6" "(1::nat) < 6" "(0::nat) \<noteq> 1" by simp_all
  have ow: "output_writable tiny_world default_flags" by (rule tiny_writable)
  from two_categories [OF d r f c i0 i1 rest ow, of example_rnd]
  show ?thesis using d r f i0 i1 i2 i3 i4 i5 ow by (simp add: list_all_iff)
qed

text \<open>
  C8. When the list is not empty and has at most \<open>batchsize\<close> entries, \<open>get_batch\<close> yields
  exactly one batch, the whole list.
\<close>

theorem get_batch_single:
  assumes "0 < length pathnames" "int (length pathnames) \<le> batchsize"
  shows "get_batch pathnames batchsize = Inr [pathnames]"
proof -
  have pos: "0 < batchsize" using assms by linarith
  have "get_batch_from pathnames batchsize 0 =
          py_slice pathnames 0 (0 + batchsize) # get_batch_from pathnames batchsize (0 + batchsize)"
    using assms pos by (subst get_batch_from.simps) simp
  moreover have "get_batch_from pathnames batchsize (0 + batchsize) = []"
    using assms by (subst get_batch_from.simps) simp
  moreover have "py_slice pathnames 0 (0 + batchsize) = pathnames"
    using assms pos py_slice_step[of 0 batchsize pathnames] by simp
  ultimately show ?thesis using pos by (simp add: get_batch_def)
qed

theorem get_batch_single_witness:
  "0 < length [''a.png'', ''b.png'', ''c.png''] \<and>
   int (length [''a.png'', ''b.png'', ''c.png'']) \<le> 64 \<and>
   get_batch [''a.png'', ''b.png'', ''c.png''] 64 = Inr [[''a.png'', ''b.png'', ''c.png'']]"
  using get_batch_single [of "[''a.png'', ''b.png'', ''c.png'']" 64] by simp

text \<open>
  C9. The label vocabulary is the fixed list \<open>Barren\<close>, \<open>Cultivated\<close>, \<open>Developed\<close>, \<open>Forest\<close>,
  \<open>Herbaceous\<close>, \<open>Shrub\<close>; \<open>label_map\<close> gives each name its position in the list (0 to 5)
  and gives no other name a label. Every pair \<open>(path, label)\<close> of the labelled list has a
  label below six, and \<open>path\<close> is \<open>os.path.join(img_dir, folder, image)\<close> for the folder at
  position \<open>label\<close> and an image listed in it; when the image name is a plain file name,
  that folder is the name of the directory the path lies in.
\<close>

theorem label_vocabulary:
  "folders = [''Barren'', ''Cultivated'', ''Developed'', ''Forest'', ''Herbaceous'', ''Shrub'']
   \<and> map (map_of label_map) folders = [Some 0, Some 1, Some 2, Some 3, Some 4, Some 5]
   \<and> (\<forall>k<length folders. map_of label_map (folders ! k) = Some k)
   \<and> (\<forall>name. name \<notin> set folders \<longrightarrow> map_of label_map name = None)
   \<and> (\<forall>l. labeled_image_list w img_dir = Inr l \<longrightarrow>
         (\<forall>(path, label)\<in>set l.
            label < length folders
          \<and> (\<exists>image\<in>set (images_in w img_dir (folders ! label)).
                path = os_path_join img_dir [folders ! label, image]
              \<and> (file_name_ok image \<longrightarrow> parent_dir_name path = folders ! label))))"
proof (intro conjI allI impI)
  show "folders = [''Barren'', ''Cultivated'', ''Developed'', ''Forest'', ''Herbaceous'', ''Shrub'']"
    by (rule folders_eq)
  show "map (map_of label_map) folders = [Some 0, Some 1, Some 2, Some 3, Some 4, Some 5]"
    by (simp add: folders_eq label_map_def)
  show "map_of label_map (folders ! k) = Some k" if "k < length folders" for k
    using that label_of_folder[of k] by (simp add: folders_eq)
  show "map_of label_map name = None" if "name \<notin> set folders" for name
    using that unfolding folders_def by (simp add: map_of_eq_None_iff)
next
  fix l
  assume l: "labeled_image_list w img_dir = Inr l"
  have len: "length folders = 6" by (simp add: folders_eq)
  show "\<forall>(path, label)\<in>set l.
            label < length folders
          \<and> (\<exists>image\<in>set (images_in w img_dir (folders ! label)).
                path = os_path_join img_dir [folders ! label, image]
              \<and> (file_name_ok image \<longrightarrow> parent_dir_name path = folders ! label))"
  proof (intro ballI, clarify)
    fix path label assume "(path, label) \<in> set l"
    then have "(path, label) \<in> set (concat (map (folder_pairs w img_dir) folders))"
      using labeled_image_list_Inr[OF l] by simp
    from pair_origin[OF this] obtain folder image where
      o: "folder \<in> set folders" "image \<in> set (images_in w img_dir folder)"
         "path = os_path_join img_dir [folder, image]" "map_of label_map folder = Some label"
      by blast
    from folder_index[OF o(1)] obtain k where k: "k < 6" "folder = folders ! k" by blast
    have "label = k" using o(4) label_of_folder[OF k(1)] k(2) by simp
    then have f: "folder = folders ! label" and lt: "label < length folders"
      using k len by simp_all
    have "file_name_ok image \<longrightarrow> parent_dir_name path = folder"
      using parent_dir_name_join[of folder image img_dir] folder_plain[OF o(1)] o(3) by simp
    then show "label < length folders
          \<and> (\<exists>image\<in>set (images_in w img_dir (folders ! label)).
                path = os_path_join img_dir [folders ! label, image]
              \<and> (file_name_ok image \<longrightarrow> parent_dir_name path = folders ! label))"
      unfolding f[symmetric] using lt[unfolded f[symmetric]] o(2,3) by auto
  qed
qed

theorem label_vocabulary_witness:
  "labeled_image_list tiny_world ''aerialtiny'' =
     Inr [(''aerialtiny/Barren/b1.png'', 0), (''aerialtiny/Barren/b2.png'', 0),
          (''aerialtiny/Barren/b3.png'', 0),
          (''aerialtiny/Cultivated/c1.png'', 1), (''aerialtiny/Cultivated/c2.png'', 1),
          (''aerialtiny/Cultivated/c3.png'', 1), (''aerialtiny/Cultivated/c4.png'', 1),
          (''aerialtiny/Cultivated/c5.png'', 1)] \<and>
   folders ! 1 = ''Cultivated'' \<and>
   map_of label_map ''Cultivated'' = Some 1 \<and>
   map_of label_map ''Water'' = None \<and>
   parent_dir_name ''aerialtiny/Cultivated/c2.png'' = ''Cultivated''"
proof -
  note T = label_vocabulary [of tiny_world "''aerialtiny''"]
  note T1 = T[THEN conjunct1]
  note T3 = T[THEN conjunct2, THEN conjunct2, THEN conjunct1, rule_format]
  note T4 = T[THEN conjunct2, THEN conjunct2, THEN conjunct2, THEN conjunct1, rule_format]
  note T5 = T[THEN conjunct2, THEN conjunct2, THEN conjunct2, THEN conjunct2, rule_format,
      OF tiny_labeled_image_list]
  have f1: "folders ! 1 = ''Cultivated''" by (subst T1) simp
  have "1 < length folders" by (subst T1) simp
  from T3[OF this] have m1: "map_of label_map ''Cultivated'' = Some 1" unfolding f1 .
  have "''Water'' \<notin> set folders" by (subst T1) simp
  from T4[OF this] have mw: "map_of label_map ''Water'' = None" .
  have mem: "(''aerialtiny/Cultivated/c2.png'', 1) \<in> set
     [(''aerialtiny/Barren/b1.png'', 0), (''aerialtiny/Barren/b2.png'', 0),
          (''aerialtiny/Barren/b3.png'', 0),
          (''aerialtiny/Cultivated/c1.png'', 1), (''aerialtiny/Cultivated/c2.png'', 1::nat),
          (''aerialtiny/Cultivated/c3.png'', 1), (''aerialtiny/Cultivated/c4.png'', 1),
          (''aerialtiny/Cultivated/c5.png'', 1)]" by simp
  from T5[OF mem] have
    "\<exists>image\<in>set (images_in tiny_world ''aerialtiny'' (folders ! 1)).
       ''aerialtiny/Cultivated/c2.png'' = os_path_join ''aerialtiny'' [folders ! 1, image]
       \<and> (file_name_ok image \<longrightarrow> parent_dir_name ''aerialtiny/Cultivated/c2.png'' = folders ! 1)"
    by (simp only: prod.case)
  then obtain image where
    i: "image \<in> set (images_in tiny_world ''aerialtiny'' ''Cultivated'')"
       "file_name_ok image \<longrightarrow> parent_dir_name ''aerialtiny/Cultivated/c2.png'' = ''Cultivated''"
    unfolding f1 by blast
  have "file_name_ok image" using i(1) by (auto simp: tiny_images file_name_ok_def)
  then have p: "parent_dir_name ''aerialtiny/Cultivated/c2.png'' = ''Cultivated''"
    using i(2) by simp
  show ?thesis using tiny_labeled_image_list f1 m1 mw p by (intro conjI)
qed

text \<open>
  C10. When the six folders can be listed and hold no file at all, the run raises
  \<open>ValueError\<close> at the unpacking of the empty list: whatever the featurizer is, even one
  whose graph cannot be built, the result is that error, and the world is as before, so no
  output file is written.
\<close>

theorem empty_input_raises:
  assumes "dirs_present w (input_data_dir FLAGS)"
    and "total_image_count w (input_data_dir FLAGS) = 0"
  shows "labeled_image_list w (input_data_dir FLAGS) = Inr [] \<and>
         create_bottleneck_features FLAGS rnd resnet w = (Inl ValueError, w)"
proof -
  have "labeled_image_list w (input_data_dir FLAGS) = Inr []"
    using labeled_image_list_ok[OF assms(1)] all_pairs_Nil_iff[of w "input_data_dir FLAGS"] assms(2)
    by simp
  then show ?thesis using create_empty[OF assms] by simp
qed

theorem empty_input_raises_witness:
  "dirs_present empty_world (input_data_dir default_flags) \<and>
   total_image_count empty_world (input_data_dir default_flags) = 0 \<and>
   create_bottleneck_features default_flags example_rnd (Inl (GraphError ''no model'')) empty_world
     = (Inl ValueError, empty_world) \<and>
   create_bottleneck_features default_flags example_rnd (Inr (per_image example_vector)) empty_world
     = (Inl ValueError, empty_world)"
proof -
  have d: "dirs_present empty_world (input_data_dir default_flags)"
    using empty_dirs_present by (simp add: default_dir)
  have t: "total_image_count empty_world (input_data_dir default_flags) = 0"
    using empty_total by (simp add: default_dir)
  show ?thesis
    using d t
      empty_input_raises [OF d t, of example_rnd "Inl (GraphError ''no model'')"]
      empty_input_raises [OF d t, of example_rnd "Inr (per_image example_vector)"]
    by simp
qed

end
